theory Spec2Isabelle
  imports Complex_Main
begin

section \<open>Torrent content gateway: magnet parsing, file catalog, range streaming\<close>

text \<open>
  The repository holds two variants of the same Express server.  The file
  \<^verbatim>\<open>src/unnamed/part_000\<close> lists the files of a torrent (looking inside ZIP
  archives) and streams them; \<^verbatim>\<open>src/api/index.js\<close> is the variant without ZIP
  support (and with a movie metadata proxy that is not modelled here).  Functions that
  are the same in both files are modelled once; where the two files differ the
  definition taken from \<^verbatim>\<open>src/api/index.js\<close> carries the suffix \<open>_api\<close>.

  Strings are \<^typ>\<open>string\<close>; a character stands for one code unit below 256, which is
  what an HTTP header value and an ASCII file name consist of.
\<close>

subsection \<open>String helpers of the JavaScript library\<close>

text \<open>\<^verbatim>\<open>String.prototype.toLowerCase\<close>, on the ASCII letters.\<close>

definition lower_char :: "char \<Rightarrow> char" where
  "lower_char c =
     (case map_of (zip ''ABCDEFGHIJKLMNOPQRSTUVWXYZ'' ''abcdefghijklmnopqrstuvwxyz'') c of
        Some l \<Rightarrow> l
      | None \<Rightarrow> c)"

definition toLowerCase :: "string \<Rightarrow> string" where
  "toLowerCase s = map lower_char s"

text \<open>\<^verbatim>\<open>s.startsWith(p)\<close> and \<^verbatim>\<open>s.endsWith('/')\<close>.\<close>

definition startsWith :: "string \<Rightarrow> string \<Rightarrow> bool" where
  "startsWith s p = (take (length p) s = p)"

definition endsWithSlash :: "string \<Rightarrow> bool" where
  "endsWithSlash s = (case rev s of [] \<Rightarrow> False | c # _ \<Rightarrow> c = CHR ''/'')"

subsection \<open>Magnet identity parser\<close>

text \<open>
  \<^verbatim>\<open>
  function extractInfoHash(magnet) {
    const match = magnet.match(/urn:btih:([a-fA-F0-9]{40})/);
    return match ? match[1].toLowerCase() : null;
  }
  \<close>
  The character class \<^verbatim>\<open>[a-fA-F0-9]\<close>:
\<close>

definition isHexDigit :: "char \<Rightarrow> bool" where
  "isHexDigit c = (c \<in> set ''abcdefABCDEF0123456789'')"

text \<open>
  The regular expression tried at the start of a string: the literal prefix, then forty
  characters of the class; the result is the capture group.
\<close>

definition match_here :: "string \<Rightarrow> string option" where
  "match_here s =
     (let h = take 40 (drop 9 s)
      in if startsWith s ''urn:btih:'' \<and> length h = 40 \<and> list_all isHexDigit h
         then Some h else None)"

text \<open>
  \<^verbatim>\<open>String.prototype.match\<close> without the global flag: the match at the leftmost
  position where the expression matches.
\<close>

fun regex_match :: "string \<Rightarrow> string option" where
  "regex_match [] = match_here []"
| "regex_match (c # cs) =
     (case match_here (c # cs) of
        Some h \<Rightarrow> Some h
      | None \<Rightarrow> regex_match cs)"

definition extractInfoHash :: "string \<Rightarrow> string option" where
  "extractInfoHash magnet =
     (case regex_match magnet of
        Some h \<Rightarrow> Some (toLowerCase h)
      | None \<Rightarrow> None)"

text \<open>
  What the specification calls a well-formed token: the string can be cut into a prefix,
  \<^verbatim>\<open>urn:btih:\<close>, forty hexadecimal digits, and a rest.
\<close>

definition btih_token_at :: "string \<Rightarrow> string \<Rightarrow> string \<Rightarrow> bool" where
  "btih_token_at s pre h =
     (length h = 40 \<and> list_all isHexDigit h \<and>
      (\<exists>post. s = pre @ ''urn:btih:'' @ h @ post))"

definition has_btih_token :: "string \<Rightarrow> bool" where
  "has_btih_token s = (\<exists>pre h. btih_token_at s pre h)"

text \<open>The token the parser has to report: the one that starts first in the string.\<close>

definition leftmost_token :: "string \<Rightarrow> string \<Rightarrow> bool" where
  "leftmost_token s h =
     (\<exists>pre. btih_token_at s pre h \<and>
        (\<forall>pre' h'. btih_token_at s pre' h' \<longrightarrow> length pre \<le> length pre'))"

definition isLowerHex :: "char \<Rightarrow> bool" where
  "isLowerHex c = (c \<in> set ''abcdef0123456789'')"

subsection \<open>File kinds\<close>

text \<open>
  \<^verbatim>\<open>path.extname\<close> is Node's, not the repository's.  It is modelled after the POSIX
  variant of the library: one scan of the path from its last character to its first,
  which skips trailing separators, stops at the separator before the last component
  and remembers the last dot of that component.  \<open>extname_scan p i st\<close> is the state
  after the loop has visited the indices \<open>i - 1, ..., 0\<close>.
\<close>

record ext_state =
  startDot :: int
  startPart :: int
  endPos :: int
  matchedSlash :: bool
  preDotState :: int

fun extname_scan :: "string \<Rightarrow> nat \<Rightarrow> ext_state \<Rightarrow> ext_state" where
  "extname_scan p 0 st = st"
| "extname_scan p (Suc i) st =
     (if p ! i = CHR ''/'' then
        (if \<not> matchedSlash st then st\<lparr>startPart := int i + 1\<rparr>
         else extname_scan p i st)
      else
        (let st1 = (if endPos st = - 1 then st\<lparr>endPos := int i + 1, matchedSlash := False\<rparr>
                    else st);
             st2 = (if p ! i = CHR ''.'' then
                      (if startDot st1 = - 1 then st1\<lparr>startDot := int i\<rparr>
                       else if preDotState st1 \<noteq> 1 then st1\<lparr>preDotState := 1\<rparr>
                       else st1)
                    else if startDot st1 \<noteq> - 1 then st1\<lparr>preDotState := - 1\<rparr>
                    else st1)
         in extname_scan p i st2))"

definition extname :: "string \<Rightarrow> string" where
  "extname p =
     (let st = extname_scan p (length p)
                 \<lparr>startDot = - 1, startPart = 0, endPos = - 1, matchedSlash = True,
                  preDotState = 0\<rparr>
      in if startDot st = - 1 \<or> endPos st = - 1 \<or> preDotState st = 0 \<or>
            (preDotState st = 1 \<and> startDot st = endPos st - 1 \<and>
             startDot st = startPart st + 1)
         then []
         else take (nat (endPos st - startDot st)) (drop (nat (startDot st)) p))"

text \<open>
  The kinds are string literals in the source; they form a closed set, so they are a
  datatype here.
  \<^verbatim>\<open>
  function getFileType(fileName) {
    const ext = path.extname(fileName).toLowerCase();
    if (['.mp4', '.mkv', '.avi'].includes(ext)) return 'video';
    if (['.jpg', '.jpeg', '.png', '.gif'].includes(ext)) return 'image';
    if (ext === '.zip') return 'zip';          // part_000 only
    return 'other';
  }
  \<close>
\<close>

datatype file_type = Video | Image | Zip | Other

definition getFileType :: "string \<Rightarrow> file_type" where
  "getFileType fileName =
     (let ext = toLowerCase (extname fileName)
      in if ext \<in> set [''.mp4'', ''.mkv'', ''.avi''] then Video
         else if ext \<in> set [''.jpg'', ''.jpeg'', ''.png'', ''.gif''] then Image
         else if ext = ''.zip'' then Zip
         else Other)"

definition getFileType_api :: "string \<Rightarrow> file_type" where
  "getFileType_api fileName =
     (let ext = toLowerCase (extname fileName)
      in if ext \<in> set [''.mp4'', ''.mkv'', ''.avi''] then Video
         else if ext \<in> set [''.jpg'', ''.jpeg'', ''.png'', ''.gif''] then Image
         else Other)"

subsection \<open>Torrents, files and the catalog\<close>

text \<open>
  A file of a torrent has a name, a path and a length (a JavaScript number that is a
  natural number).  The model also records what happens when \<^verbatim>\<open>extractZip\<close> reads
  the file:
  \<^verbatim>\<open>
  zipFile.createReadStream((err, stream) => {
    if (err) return reject(err);
    ...
    stream.on('end', () => {
      yauzl.fromBuffer(buffer, { lazyEntries: true }, (err, zip) => {
        if (err) return reject(err);
        ...
  \<close>
  The promise is settled only from inside the callback handed to
  \<^verbatim>\<open>createReadStream\<close>.  The stream handler of the same file uses the value that
  \<^verbatim>\<open>createReadStream\<close> returns as the stream
  (\<^verbatim>\<open>const stream = file.createReadStream({ start, end: chunkEnd })\<close> and
  \<^verbatim>\<open>file.createReadStream().pipe(res)\<close>): on such file objects the one argument is
  the options, a function passed for it is never called, and the promise of
  \<^verbatim>\<open>extractZip\<close> stays pending.  This is the case \<open>NoCallback\<close>.  The other cases
  describe an engine that does call back: with an error, or with a stream whose bytes
  \<^verbatim>\<open>yauzl.fromBuffer\<close> refuses, or with a stream whose bytes open as an archive,
  the central directory of which is then walked entry by entry.  (An error event raised
  later, while the stream or the directory is being read, has no listener in the source
  and is not part of the model.)
\<close>

type_synonym error = string

record zip_entry =
  fileName :: string
  uncompressedSize :: nat

datatype zip_source =
    NoCallback
  | StreamFails error
  | OpenFails error
  | Entries "zip_entry list"

text \<open>The state a promise ends in; \<open>Pending\<close> when it is never settled.\<close>

datatype 'a promise = Pending | Rejected error | Resolved 'a

record file_handle =
  name :: string
  len :: nat
  path :: string
  archive :: zip_source

record torrent =
  infoHash :: "string option"
  files :: "file_handle list"

text \<open>An element of the JSON array the listing answers with.\<close>

record entry =
  entry_name :: string
  entry_length :: nat
  entry_path :: string
  entry_type :: file_type

text \<open>
  \<^verbatim>\<open>
  zip.on('entry', (entry) => {
    if (!entry.fileName.endsWith('/')) {
      const fileType = getFileType(entry.fileName);
      if (fileType === 'video' || fileType === 'image') {
        extractedFiles.push({ name: entry.fileName, length: entry.uncompressedSize,
                              path: zipFile.path + '/' + entry.fileName, type: fileType });
      }
    }
    zip.readEntry();
  });
  zip.on('end', () => resolve(extractedFiles));
  \<close>
  The walk over the entries, with \<open>extractedFiles\<close> as accumulator:
\<close>

fun zip_entries :: "file_handle \<Rightarrow> zip_entry list \<Rightarrow> entry list \<Rightarrow> entry list" where
  "zip_entries zipFile [] extractedFiles = extractedFiles"
| "zip_entries zipFile (e # es) extractedFiles =
     zip_entries zipFile es
       (if \<not> endsWithSlash (fileName e) then
          (let fileType = getFileType (fileName e)
           in if fileType = Video \<or> fileType = Image then
                extractedFiles @
                  [\<lparr>entry_name = fileName e, entry_length = uncompressedSize e,
                    entry_path = path zipFile @ ''/'' @ fileName e,
                    entry_type = fileType\<rparr>]
              else extractedFiles)
        else extractedFiles)"

text \<open>The promise that \<^verbatim>\<open>extractZip\<close> returns.\<close>

definition extractZip :: "file_handle \<Rightarrow> entry list promise" where
  "extractZip zipFile =
     (case archive zipFile of
        NoCallback \<Rightarrow> Pending
      | StreamFails err \<Rightarrow> Rejected err
      | OpenFails err \<Rightarrow> Rejected err
      | Entries es \<Rightarrow> Resolved (zip_entries zipFile es []))"

text \<open>
  \<^verbatim>\<open>
  async function getFiles(torrent) {             // part_000
    let fileList = [];
    for (const file of torrent.files) {
      if (getFileType(file.name) === 'zip') {
        const extractedFiles = await extractZip(file);
        fileList = fileList.concat(extractedFiles);
      } else {
        fileList.push({ name: file.name, length: file.length, path: file.path,
                        type: getFileType(file.name) });
      }
    }
    return fileList;
  }
  \<close>
  A rejected \<^verbatim>\<open>await\<close> throws, which rejects the promise of \<^verbatim>\<open>getFiles\<close>; an
  \<^verbatim>\<open>await\<close> on a promise that is never settled never returns, and the promise of
  \<^verbatim>\<open>getFiles\<close> stays pending.
\<close>

fun getFiles_loop :: "file_handle list \<Rightarrow> entry list \<Rightarrow> entry list promise" where
  "getFiles_loop [] fileList = Resolved fileList"
| "getFiles_loop (f # fs) fileList =
     (if getFileType (name f) = Zip then
        (case extractZip f of
           Pending \<Rightarrow> Pending
         | Rejected err \<Rightarrow> Rejected err
         | Resolved extractedFiles \<Rightarrow> getFiles_loop fs (fileList @ extractedFiles))
      else
        getFiles_loop fs
          (fileList @
             [\<lparr>entry_name = name f, entry_length = len f, entry_path = path f,
               entry_type = getFileType (name f)\<rparr>]))"

definition getFiles :: "torrent \<Rightarrow> entry list promise" where
  "getFiles t = getFiles_loop (files t) []"

text \<open>
  \<^verbatim>\<open>
  async function getFiles(torrent) {             // src/api/index.js
    return torrent.files.map(file => ({ name: file.name, length: file.length,
        path: file.path, type: getFileType(file.name) }))
      .filter(file => file.type === 'video' || file.type === 'image');
  }
  \<close>
\<close>

definition getFiles_api :: "torrent \<Rightarrow> entry list" where
  "getFiles_api t =
     filter (\<lambda>e. entry_type e = Video \<or> entry_type e = Image)
       (map (\<lambda>f. \<lparr>entry_name = name f, entry_length = len f, entry_path = path f,
                   entry_type = getFileType_api (name f)\<rparr>)
          (files t))"

subsection \<open>JavaScript numbers\<close>

text \<open>
  The values the range arithmetic works on: \<^verbatim>\<open>undefined\<close> (the missing element of a
  destructured array), \<^verbatim>\<open>NaN\<close>, the two infinities and the finite numbers.  A finite
  number is an IEEE 754 double; \<open>Num x\<close> holds the rational \<open>x\<close> it denotes.  Negative
  zero is identified with zero: both are falsy and both print as \<^verbatim>\<open>0\<close>.
\<close>

datatype jsval = Undefined | NaN | PosInf | NegInf | Num rat

text \<open>
  Rounding a rational to the nearest double, ties to the even significand.  A finite
  double is \<open>m * 2^e\<close> with \<open>m < 2^53\<close> and \<open>- 1074 \<le> e \<le> 971\<close>; for a positive
  \<open>a\<close> the spacing of the doubles around \<open>a\<close> is \<open>2^e\<close> with
  \<open>e = max (\<lfloor>log\<^sub>2 a\<rfloor> - 52) (- 1074)\<close>, and \<open>a\<close> is rounded to a multiple of it.
  From \<open>2^1024 - 2^970\<close> on (half way between the largest double and \<open>2^1024\<close>)
  the result is infinite.
\<close>

function bit_length :: "int \<Rightarrow> int" where
  "bit_length n = (if n \<le> 0 then 0 else 1 + bit_length (n div 2))"
  by pat_completeness auto
termination
  by (relation "measure nat") auto

declare bit_length.simps [simp del]

definition pow2 :: "int \<Rightarrow> rat" where
  "pow2 k = (if 0 \<le> k then 2 ^ nat k else 1 / 2 ^ nat (- k))"

text \<open>\<open>\<lfloor>log\<^sub>2 x\<rfloor>\<close> for \<open>0 < x\<close>.\<close>

definition floor_log2 :: "rat \<Rightarrow> int" where
  "floor_log2 x =
     (if 1 \<le> x then bit_length \<lfloor>x\<rfloor> - 1 else - bit_length (\<lceil>1 / x\<rceil> - 1))"

definition round_half_even :: "rat \<Rightarrow> int" where
  "round_half_even q =
     (let f = \<lfloor>q\<rfloor>; d = q - of_int f
      in if d < 1 / 2 then f
         else if 1 / 2 < d then f + 1
         else if even f then f else f + 1)"

definition toDouble :: "rat \<Rightarrow> jsval" where
  "toDouble x =
     (let a = \<bar>x\<bar>
      in if a = 0 then Num 0
         else if 2 ^ 1024 - 2 ^ 970 \<le> a then (if 0 < x then PosInf else NegInf)
         else
           (let e = max (floor_log2 a - 52) (- 1074);
                m = round_half_even (a / pow2 e);
                r = of_int m * pow2 e
            in Num (if 0 < x then r else - r)))"

text \<open>\<^verbatim>\<open>ToNumber\<close> on these values, and \<^verbatim>\<open>ToBoolean\<close>.\<close>

fun toNumber :: "jsval \<Rightarrow> jsval" where
  "toNumber Undefined = NaN"
| "toNumber v = v"

fun truthy :: "jsval \<Rightarrow> bool" where
  "truthy Undefined = False"
| "truthy NaN = False"
| "truthy PosInf = True"
| "truthy NegInf = True"
| "truthy (Num x) = (x \<noteq> 0)"

fun num_neg :: "jsval \<Rightarrow> jsval" where
  "num_neg PosInf = NegInf"
| "num_neg NegInf = PosInf"
| "num_neg (Num x) = Num (- x)"
| "num_neg v = NaN"

text \<open>The sum of two doubles is the exact sum, rounded.\<close>

fun num_add :: "jsval \<Rightarrow> jsval \<Rightarrow> jsval" where
  "num_add (Num x) (Num y) = toDouble (x + y)"
| "num_add PosInf (Num y) = PosInf"
| "num_add (Num x) PosInf = PosInf"
| "num_add PosInf PosInf = PosInf"
| "num_add NegInf (Num y) = NegInf"
| "num_add (Num x) NegInf = NegInf"
| "num_add NegInf NegInf = NegInf"
| "num_add v w = NaN"

text \<open>The operators \<^verbatim>\<open>a + b\<close> and \<^verbatim>\<open>a - b\<close> on operands that are numbers or undefined.\<close>

definition js_plus :: "jsval \<Rightarrow> jsval \<Rightarrow> jsval" where
  "js_plus a b = num_add (toNumber a) (toNumber b)"

definition js_minus :: "jsval \<Rightarrow> jsval \<Rightarrow> jsval" where
  "js_minus a b = num_add (toNumber a) (num_neg (toNumber b))"

text \<open>\<^verbatim>\<open>Math.min\<close> of two arguments.\<close>

fun num_min :: "jsval \<Rightarrow> jsval \<Rightarrow> jsval" where
  "num_min (Num x) (Num y) = Num (min x y)"
| "num_min (Num x) PosInf = Num x"
| "num_min PosInf (Num y) = Num y"
| "num_min PosInf PosInf = PosInf"
| "num_min NegInf (Num y) = NegInf"
| "num_min NegInf PosInf = NegInf"
| "num_min NegInf NegInf = NegInf"
| "num_min (Num x) NegInf = NegInf"
| "num_min PosInf NegInf = NegInf"
| "num_min v w = NaN"

definition Math_min :: "jsval \<Rightarrow> jsval \<Rightarrow> jsval" where
  "Math_min a b = num_min (toNumber a) (toNumber b)"

subsection \<open>\<^verbatim>\<open>Number\<close> applied to a string\<close>

text \<open>
  The grammar of \<^verbatim>\<open>StringNumericLiteral\<close>: white space is stripped on both sides; the
  empty string is 0; then a binary, octal or hexadecimal integer, or a decimal literal
  with an optional sign, fraction and exponent, or \<^verbatim>\<open>Infinity\<close>; anything else is
  \<^verbatim>\<open>NaN\<close>.  The result is the mathematical value of the literal rounded to a
  double.
\<close>

definition isWhiteSpace :: "char \<Rightarrow> bool" where
  "isWhiteSpace c = (c \<in> set [CHR 0x09, CHR 0x0A, CHR 0x0B, CHR 0x0C, CHR 0x0D, CHR 0x20, CHR 0xA0])"

definition trim :: "string \<Rightarrow> string" where
  "trim s = rev (dropWhile isWhiteSpace (rev (dropWhile isWhiteSpace s)))"

definition digit_of :: "char \<Rightarrow> int option" where
  "digit_of c =
     map_of
       [(CHR ''0'', 0), (CHR ''1'', 1), (CHR ''2'', 2), (CHR ''3'', 3), (CHR ''4'', 4),
        (CHR ''5'', 5), (CHR ''6'', 6), (CHR ''7'', 7), (CHR ''8'', 8), (CHR ''9'', 9),
        (CHR ''a'', 10), (CHR ''b'', 11), (CHR ''c'', 12), (CHR ''d'', 13), (CHR ''e'', 14),
        (CHR ''f'', 15)]
       (lower_char c)"

definition isDigitBelow :: "int \<Rightarrow> char \<Rightarrow> bool" where
  "isDigitBelow b c = (case digit_of c of Some d \<Rightarrow> d < b | None \<Rightarrow> False)"

definition isDigit :: "char \<Rightarrow> bool" where
  "isDigit c = (c \<in> set ''0123456789'')"

definition digits_value :: "int \<Rightarrow> string \<Rightarrow> int" where
  "digits_value b ds = foldl (\<lambda>a c. b * a + (case digit_of c of Some d \<Rightarrow> d | None \<Rightarrow> 0)) 0 ds"

definition allDigits :: "string \<Rightarrow> bool" where
  "allDigits ds = (ds \<noteq> [] \<and> list_all isDigit ds)"

definition nonDecimalIntegerLiteral :: "string \<Rightarrow> int option" where
  "nonDecimalIntegerLiteral t =
     (case t of
        z # x # ds \<Rightarrow>
          (if z = CHR ''0'' \<and> ds \<noteq> [] then
             (if x \<in> set ''xX'' \<and> list_all (isDigitBelow 16) ds then Some (digits_value 16 ds)
              else if x \<in> set ''oO'' \<and> list_all (isDigitBelow 8) ds then Some (digits_value 8 ds)
              else if x \<in> set ''bB'' \<and> list_all (isDigitBelow 2) ds then Some (digits_value 2 ds)
              else None)
           else None)
      | _ \<Rightarrow> None)"

definition signedInteger :: "string \<Rightarrow> int option" where
  "signedInteger r =
     (case r of
        [] \<Rightarrow> None
      | c # ds \<Rightarrow>
          (if c = CHR ''+'' then (if allDigits ds then Some (digits_value 10 ds) else None)
           else if c = CHR ''-'' then (if allDigits ds then Some (- digits_value 10 ds) else None)
           else if allDigits r then Some (digits_value 10 r)
           else None))"

text \<open>The optional exponent part that ends a decimal literal.\<close>

definition exponentPart :: "string \<Rightarrow> int option" where
  "exponentPart r =
     (case r of
        [] \<Rightarrow> Some 0
      | c # r' \<Rightarrow> if c \<in> set ''eE'' then signedInteger r' else None)"

definition scale10 :: "rat \<Rightarrow> int \<Rightarrow> rat" where
  "scale10 x e = (if 0 \<le> e then x * 10 ^ nat e else x / 10 ^ nat (- e))"

definition strUnsignedDecimalLiteral :: "string \<Rightarrow> jsval option" where
  "strUnsignedDecimalLiteral t =
     (if t = ''Infinity'' then Some PosInf
      else
        (let ip = takeWhile isDigit t; r = dropWhile isDigit t
         in case r of
              [] \<Rightarrow> if ip = [] then None else Some (toDouble (of_int (digits_value 10 ip)))
            | c # r1 \<Rightarrow>
                (if c = CHR ''.'' then
                   (let fp = takeWhile isDigit r1; r2 = dropWhile isDigit r1
                    in if ip = [] \<and> fp = [] then None
                       else
                         (case exponentPart r2 of
                            None \<Rightarrow> None
                          | Some e \<Rightarrow>
                              Some (toDouble (scale10
                                (of_int (digits_value 10 ip) +
                                 of_int (digits_value 10 fp) / 10 ^ length fp) e))))
                 else if ip = [] then None
                 else
                   (case exponentPart r of
                      None \<Rightarrow> None
                    | Some e \<Rightarrow> Some (toDouble (scale10 (of_int (digits_value 10 ip)) e))))))"

definition Number :: "string \<Rightarrow> jsval" where
  "Number s =
     (let t = trim s
      in if t = [] then Num 0
         else
           (case nonDecimalIntegerLiteral t of
              Some n \<Rightarrow> toDouble (of_int n)
            | None \<Rightarrow>
                (case t of
                   [] \<Rightarrow> Num 0
                 | c # u \<Rightarrow>
                     (if c = CHR ''+'' then
                        (case strUnsignedDecimalLiteral u of Some v \<Rightarrow> v | None \<Rightarrow> NaN)
                      else if c = CHR ''-'' then
                        (case strUnsignedDecimalLiteral u of Some v \<Rightarrow> num_neg v | None \<Rightarrow> NaN)
                      else
                        (case strUnsignedDecimalLiteral t of Some v \<Rightarrow> v | None \<Rightarrow> NaN)))))"

subsection \<open>The Range header\<close>

text \<open>\<^verbatim>\<open>s.replace(/bytes=/, '')\<close>: the first occurrence of the literal is removed.\<close>

fun remove_first :: "string \<Rightarrow> string \<Rightarrow> string" where
  "remove_first pat [] = []"
| "remove_first pat (c # cs) =
     (if startsWith (c # cs) pat then drop (length pat) (c # cs)
      else c # remove_first pat cs)"

text \<open>\<^verbatim>\<open>s.split('-')\<close>: the pieces between the separators; never an empty array.\<close>

fun split :: "char \<Rightarrow> string \<Rightarrow> string list" where
  "split sep [] = [[]]"
| "split sep (c # cs) =
     (if c = sep then [] # split sep cs
      else (case split sep cs of
              [] \<Rightarrow> [[c]]
            | piece # pieces \<Rightarrow> (c # piece) # pieces))"

text \<open>An array element, \<^verbatim>\<open>undefined\<close> past the end.\<close>

definition element :: "jsval list \<Rightarrow> nat \<Rightarrow> jsval" where
  "element xs i = (if i < length xs then xs ! i else Undefined)"

text \<open>\<^verbatim>\<open>range.replace(/bytes=/, '').split('-').map(Number)\<close>\<close>

definition range_numbers :: "string \<Rightarrow> jsval list" where
  "range_numbers rangeHeader = map Number (split CHR ''-'' (remove_first ''bytes='' rangeHeader))"

text \<open>
  The head of a 206 response and the read it is piped from:
  \<^verbatim>\<open>Content-Range: bytes <range_start>-<range_end>/<range_size>\<close>,
  \<^verbatim>\<open>Content-Length\<close>, \<^verbatim>\<open>Content-Type\<close> (\<^verbatim>\<open>Accept-Ranges\<close> is always
  \<^verbatim>\<open>bytes\<close>), and the options given to \<^verbatim>\<open>createReadStream\<close>.
\<close>

record partial_content =
  range_start :: jsval
  range_end :: jsval
  range_size :: jsval
  content_length :: jsval
  content_type :: string
  read_start :: jsval
  read_end :: jsval

text \<open>
  \<^verbatim>\<open>
  const fileSize = file.length;
  const [start, end] = range.replace(/bytes=/, '').split('-').map(Number);
  const chunkEnd = end || Math.min(start + 10 ** 6, fileSize - 1);
  const contentLength = chunkEnd - start + 1;
  res.writeHead(206, { 'Content-Range': `bytes ${start}-${chunkEnd}/${fileSize}`,
    'Accept-Ranges': 'bytes', 'Content-Length': contentLength,
    'Content-Type': 'video/mp4' });
  const stream = file.createReadStream({ start, end: chunkEnd });
  \<close>
  The two source files agree on this computation.  \<^verbatim>\<open>file.length\<close> is a JavaScript
  number: the length of the file as a double.
\<close>

definition chunkEnd :: "jsval \<Rightarrow> jsval \<Rightarrow> jsval \<Rightarrow> jsval" where
  "chunkEnd fileSize start end =
     (if truthy end then end
      else Math_min (js_plus start (Num (10 ^ 6))) (js_minus fileSize (Num 1)))"

definition serve_range :: "nat \<Rightarrow> string \<Rightarrow> partial_content" where
  "serve_range fileLength rangeHeader =
     (let fileSize = toDouble (of_nat fileLength);
          numbers = range_numbers rangeHeader;
          start = element numbers 0;
          end = element numbers 1;
          ce = chunkEnd fileSize start end;
          contentLength = js_plus (js_minus ce start) (Num 1)
      in \<lparr>range_start = start, range_end = ce, range_size = fileSize,
          content_length = contentLength, content_type = ''video/mp4'',
          read_start = start, read_end = ce\<rparr>)"

subsection \<open>The request handlers\<close>

text \<open>
  What a handler does with the response: a status with a text body, the JSON catalog,
  a 206 head followed by the piped bounded read, a whole file piped with only a content
  type set (status 200), or nothing at all (the promise it waits for is rejected or
  stays pending, or the engine never calls back, and nothing handles that).  The listeners that
  \<^verbatim>\<open>part_000\<close> registers on the read stream and on the response (\<^verbatim>\<open>error\<close>,
  \<^verbatim>\<open>close\<close>) run later, from the event loop; they are not part of the model.
\<close>

datatype response =
    Send nat string
  | Json "entry list"
  | Partial partial_content
  | Whole string
  | NoResponse

fun status :: "response \<Rightarrow> nat option" where
  "status (Send code body) = Some code"
| "status (Json catalog) = Some 200"
| "status (Partial head) = Some 206"
| "status (Whole ctype) = Some 200"
| "status NoResponse = None"

text \<open>Whether bytes of the file are piped into the response.\<close>

fun streams_file :: "response \<Rightarrow> bool" where
  "streams_file (Partial head) = True"
| "streams_file (Whole ctype) = True"
| "streams_file r = False"

text \<open>
  \<^verbatim>\<open>
  app.get('/list-files/:magnet', (req, res) => {
    const magnet = req.params.magnet;
    const infoHash = extractInfoHash(magnet);
    if (!infoHash) return res.status(400).send('Invalid magnet link');
    const existingTorrent = client.torrents.find((torrent) => torrent.infoHash === infoHash);
    if (existingTorrent) return getFiles(existingTorrent).then((files) => res.json(files));
    client.add(magnet, (torrent) => { getFiles(torrent).then((files) => res.json(files)); });
  });
  \<close>
  The engine is a parameter: \<open>torrents\<close> is \<^verbatim>\<open>client.torrents\<close> when the request
  arrives, and \<open>add magnet\<close> is the torrent \<^verbatim>\<open>client.add\<close> hands to its callback
  (\<open>None\<close> when it never calls back).
\<close>

text \<open>\<^verbatim>\<open>getFiles(torrent).then((files) => res.json(files))\<close>\<close>

definition answer_files :: "entry list promise \<Rightarrow> response" where
  "answer_files p =
     (case p of
        Pending \<Rightarrow> NoResponse
      | Rejected err \<Rightarrow> NoResponse
      | Resolved fs \<Rightarrow> Json fs)"

definition list_files ::
  "torrent list \<Rightarrow> (string \<Rightarrow> torrent option) \<Rightarrow> string \<Rightarrow> response" where
  "list_files torrents add magnet =
     (case extractInfoHash magnet of
        None \<Rightarrow> Send 400 ''Invalid magnet link''
      | Some ih \<Rightarrow>
          (case find (\<lambda>t. infoHash t = Some ih) torrents of
             Some existingTorrent \<Rightarrow> answer_files (getFiles existingTorrent)
           | None \<Rightarrow>
               (case add magnet of
                  None \<Rightarrow> NoResponse
                | Some t \<Rightarrow> answer_files (getFiles t))))"

definition list_files_api ::
  "torrent list \<Rightarrow> (string \<Rightarrow> torrent option) \<Rightarrow> string \<Rightarrow> response" where
  "list_files_api torrents add magnet =
     (case extractInfoHash magnet of
        None \<Rightarrow> Send 400 ''Invalid magnet link''
      | Some ih \<Rightarrow>
          (case find (\<lambda>t. infoHash t = Some ih) torrents of
             Some existingTorrent \<Rightarrow> Json (getFiles_api existingTorrent)
           | None \<Rightarrow>
               (case add magnet of
                  None \<Rightarrow> NoResponse
                | Some t \<Rightarrow> Json (getFiles_api t))))"

text \<open>
  \<^verbatim>\<open>app.get('/stream/:magnet/:filename', ...)\<close> of \<^verbatim>\<open>part_000\<close>.  The header
  \<open>rangeHeader\<close> is \<open>None\<close> when the request has none; \<^verbatim>\<open>!range\<close> also holds for the
  empty string.  A file that is not a video is piped whole:
  \<^verbatim>\<open>
  // Serve images directly
  res.setHeader('Content-Type', `image/${path.extname(file.name).substring(1)}`);
  file.createReadStream().pipe(res);
  \<close>
\<close>

definition missing :: "string option \<Rightarrow> bool" where
  "missing rangeHeader = (case rangeHeader of None \<Rightarrow> True | Some r \<Rightarrow> r = [])"

definition stream ::
  "torrent list \<Rightarrow> string \<Rightarrow> string \<Rightarrow> string option \<Rightarrow> response" where
  "stream torrents magnet filename rangeHeader =
     (case extractInfoHash magnet of
        None \<Rightarrow> Send 400 ''Invalid magnet link''
      | Some ih \<Rightarrow>
          (case find (\<lambda>t. infoHash t = Some ih) torrents of
             None \<Rightarrow> Send 404 ''Torrent not found''
           | Some t \<Rightarrow>
               (case find (\<lambda>f. name f = filename) (files t) of
                  None \<Rightarrow> Send 404 ''File not found''
                | Some f \<Rightarrow>
                    (if getFileType (name f) = Video then
                       (case rangeHeader of
                          None \<Rightarrow> Send 400 ''Requires Range header''
                        | Some r \<Rightarrow>
                            if r = [] then Send 400 ''Requires Range header''
                            else Partial (serve_range (len f) r))
                     else Whole (''image/'' @ drop 1 (extname (name f)))))))"

text \<open>
  The handler of \<^verbatim>\<open>src/api/index.js\<close> asks for the header whatever the file is and
  has no branch for images.
\<close>

definition stream_api ::
  "torrent list \<Rightarrow> string \<Rightarrow> string \<Rightarrow> string option \<Rightarrow> response" where
  "stream_api torrents magnet filename rangeHeader =
     (case extractInfoHash magnet of
        None \<Rightarrow> Send 400 ''Invalid magnet link''
      | Some ih \<Rightarrow>
          (case find (\<lambda>t. infoHash t = Some ih) torrents of
             None \<Rightarrow> Send 404 ''Torrent not found''
           | Some t \<Rightarrow>
               (case find (\<lambda>f. name f = filename) (files t) of
                  None \<Rightarrow> Send 404 ''File not found''
                | Some f \<Rightarrow>
                    (case rangeHeader of
                       None \<Rightarrow> Send 400 ''Requires Range header''
                     | Some r \<Rightarrow>
                         if r = [] then Send 400 ''Requires Range header''
                         else Partial (serve_range (len f) r)))))"

subsection \<open>Vocabulary of the statements\<close>

text \<open>
  The three lookups every stream handler starts with succeed and yield the file \<open>f\<close>:
  the magnet carries an info-hash, \<^verbatim>\<open>client.torrents\<close> holds a torrent with that
  hash, and the first file of that torrent named \<open>filename\<close> is \<open>f\<close>.
\<close>

definition resolves :: "torrent list \<Rightarrow> string \<Rightarrow> string \<Rightarrow> file_handle \<Rightarrow> bool" where
  "resolves torrents magnet filename f =
     (case extractInfoHash magnet of
        None \<Rightarrow> False
      | Some ih \<Rightarrow>
          (case find (\<lambda>t. infoHash t = Some ih) torrents of
             None \<Rightarrow> False
           | Some t \<Rightarrow> find (\<lambda>f'. name f' = filename) (files t) = Some f))"

text \<open>The catalog entry \<^verbatim>\<open>extractZip\<close> makes of an archive entry, and the test it applies.\<close>

definition inner_entry :: "file_handle \<Rightarrow> zip_entry \<Rightarrow> entry" where
  "inner_entry zipFile e =
     \<lparr>entry_name = fileName e, entry_length = uncompressedSize e,
      entry_path = path zipFile @ ''/'' @ fileName e,
      entry_type = getFileType (fileName e)\<rparr>"

definition is_media_entry :: "zip_entry \<Rightarrow> bool" where
  "is_media_entry e =
     (\<not> endsWithSlash (fileName e) \<and>
      (getFileType (fileName e) = Video \<or> getFileType (fileName e) = Image))"

text \<open>What one file of a torrent contributes to the catalog of \<^verbatim>\<open>part_000\<close>.\<close>

definition file_entries :: "file_handle \<Rightarrow> entry list" where
  "file_entries f =
     (if getFileType (name f) = Zip then
        (case archive f of
           Entries es \<Rightarrow> map (inner_entry f) (filter is_media_entry es)
         | NoCallback \<Rightarrow> []
         | StreamFails err \<Rightarrow> []
         | OpenFails err \<Rightarrow> [])
      else [\<lparr>entry_name = name f, entry_length = len f, entry_path = path f,
             entry_type = getFileType (name f)\<rparr>])"

text \<open>
  A ZIP file of a torrent whose archive is not opened: the read never calls back, or it
  calls back with an error, or the bytes are refused.
\<close>

definition unopened_zip :: "file_handle \<Rightarrow> bool" where
  "unopened_zip f =
     (getFileType (name f) = Zip \<and>
      (case archive f of
         Entries es \<Rightarrow> False
       | NoCallback \<Rightarrow> True
       | StreamFails err \<Rightarrow> True
       | OpenFails err \<Rightarrow> True))"

subsection \<open>Sample data\<close>

text \<open>
  A magnet link with an upper-case and lower-case info-hash and surrounding parameters,
  and files as the engine hands them out (\<open>NoCallback\<close>): a video, an image, a text
  file, a video of one byte, a ZIP archive and a ZIP file with damaged bytes.  The two
  files \<open>unpacked\<close> and \<open>refused\<close> are the ZIP files under an engine that would call
  back: the first with an archive holding a video, an image and a directory entry, the
  second with bytes that do not open.
\<close>

definition demo_magnet :: string where
  "demo_magnet = ''magnet:?dn=demo&xt=urn:btih:0123456789ABCDEF0123456789abcdef01234567&tr=udp''"

definition demo_hash :: string where
  "demo_hash = ''0123456789abcdef0123456789abcdef01234567''"

definition movie :: file_handle where
  "movie = \<lparr>name = ''movie.mp4'', len = 5000000, path = ''demo/movie.mp4'',
            archive = NoCallback\<rparr>"

definition poster :: file_handle where
  "poster = \<lparr>name = ''poster.jpg'', len = 20000, path = ''demo/poster.jpg'',
             archive = NoCallback\<rparr>"

definition readme :: file_handle where
  "readme = \<lparr>name = ''readme.txt'', len = 120, path = ''demo/readme.txt'',
             archive = NoCallback\<rparr>"

definition tiny :: file_handle where
  "tiny = \<lparr>name = ''tiny.mp4'', len = 1, path = ''demo/tiny.mp4'', archive = NoCallback\<rparr>"

definition pack :: file_handle where
  "pack = \<lparr>name = ''pack.zip'', len = 4096, path = ''demo/pack.zip'',
           archive = NoCallback\<rparr>"

definition broken :: file_handle where
  "broken = \<lparr>name = ''broken.zip'', len = 10, path = ''demo/broken.zip'',
             archive = NoCallback\<rparr>"

definition unpacked :: file_handle where
  "unpacked = \<lparr>name = ''pack.zip'', len = 4096, path = ''demo/pack.zip'',
               archive = Entries
                 [\<lparr>fileName = ''movie.mp4'', uncompressedSize = 700\<rparr>,
                  \<lparr>fileName = ''poster.jpg'', uncompressedSize = 300\<rparr>,
                  \<lparr>fileName = ''extras/'', uncompressedSize = 0\<rparr>]\<rparr>"

definition refused :: file_handle where
  "refused = \<lparr>name = ''broken.zip'', len = 10, path = ''demo/broken.zip'',
              archive = OpenFails ''end of central directory record signature not found''\<rparr>"

text \<open>
  States of \<^verbatim>\<open>client.torrents\<close>: the sample torrent with all four kinds of file, the
  same without the ZIP file, torrents with the damaged ZIP file between a video and an
  image, and a torrent with the one-byte video.
\<close>

definition demo_torrent :: torrent where
  "demo_torrent = \<lparr>infoHash = Some demo_hash, files = [movie, poster, readme, pack]\<rparr>"

definition plain_torrent :: torrent where
  "plain_torrent = \<lparr>infoHash = Some demo_hash, files = [movie, poster, readme]\<rparr>"



definition tiny_torrent :: torrent where
  "tiny_torrent = \<lparr>infoHash = Some demo_hash, files = [tiny]\<rparr>"

text \<open>The engine's \<^verbatim>\<open>client.add\<close>: never calling back, and calling back with a torrent.\<close>

definition no_join :: "string \<Rightarrow> torrent option" where
  "no_join magnet = None"

definition joins :: "torrent \<Rightarrow> string \<Rightarrow> torrent option" where
  "joins t magnet = Some t"

section \<open>Properties\<close>

subsection \<open>The magnet parser finds the leftmost token\<close>

lemma startsWith_urn:
  "startsWith s ''urn:btih:'' \<longleftrightarrow> take 9 s = ''urn:btih:''"
proof -
  have "length ''urn:btih:'' = 9" by simp
  then show ?thesis unfolding startsWith_def by metis
qed

lemma match_here_iff:
  "match_here s = Some h \<longleftrightarrow> btih_token_at s [] h"
proof
  assume "match_here s = Some h"
  then have p: "take 9 s = ''urn:btih:''" and h: "h = take 40 (drop 9 s)"
    and l: "length h = 40" and x: "list_all isHexDigit h"
    by (auto simp: match_here_def startsWith_urn Let_def split: if_splits)
  have "s = take 9 s @ drop 9 s"
    by (simp only: append_take_drop_id)
  also have "drop 9 s = take 40 (drop 9 s) @ drop 40 (drop 9 s)"
    by (simp only: append_take_drop_id)
  finally have "s = [] @ ''urn:btih:'' @ h @ drop 40 (drop 9 s)"
    using p h by simp
  with l x show "btih_token_at s [] h"
    unfolding btih_token_at_def by blast
next
  assume "btih_token_at s [] h"
  then obtain post where l: "length h = 40" and x: "list_all isHexDigit h"
    and s: "s = ''urn:btih:'' @ h @ post"
    unfolding btih_token_at_def by auto
  from s l have "take 40 (drop 9 s) = h" by simp
  moreover from s have "take 9 s = ''urn:btih:''" by simp
  ultimately show "match_here s = Some h"
    using l x by (simp add: match_here_def startsWith_urn Let_def)
qed

lemma btih_token_at_Cons:
  "btih_token_at (c # cs) (c' # pre) h \<longleftrightarrow> c' = c \<and> btih_token_at cs pre h"
  unfolding btih_token_at_def by auto

lemma has_btih_token_Cons:
  "has_btih_token (c # cs) \<longleftrightarrow> (\<exists>h. btih_token_at (c # cs) [] h) \<or> has_btih_token cs"
proof
  assume "has_btih_token (c # cs)"
  then obtain pre h where t: "btih_token_at (c # cs) pre h"
    unfolding has_btih_token_def by blast
  show "(\<exists>h. btih_token_at (c # cs) [] h) \<or> has_btih_token cs"
  proof (cases pre)
    case Nil
    with t show ?thesis by blast
  next
    case (Cons c' pre')
    with t have "btih_token_at cs pre' h"
      by (simp add: btih_token_at_Cons)
    then show ?thesis unfolding has_btih_token_def by blast
  qed
next
  assume "(\<exists>h. btih_token_at (c # cs) [] h) \<or> has_btih_token cs"
  then show "has_btih_token (c # cs)"
  proof
    assume "\<exists>h. btih_token_at (c # cs) [] h"
    then show ?thesis unfolding has_btih_token_def by blast
  next
    assume "has_btih_token cs"
    then obtain pre h where "btih_token_at cs pre h"
      unfolding has_btih_token_def by blast
    then have "btih_token_at (c # cs) (c # pre) h"
      by (simp add: btih_token_at_Cons)
    then show ?thesis unfolding has_btih_token_def by blast
  qed
qed

lemma regex_match_None_iff:
  "regex_match s = None \<longleftrightarrow> \<not> has_btih_token s"
proof (induction s)
  case Nil
  have "\<not> btih_token_at [] pre h" for pre h
    unfolding btih_token_at_def by auto
  moreover have "match_here [] = None"
    by (simp add: match_here_def startsWith_urn)
  ultimately show ?case
    by (simp add: has_btih_token_def)
next
  case (Cons c cs)
  show ?case
  proof (cases "match_here (c # cs)")
    case None
    then have "\<not> (\<exists>h. btih_token_at (c # cs) [] h)"
      by (simp add: match_here_iff [symmetric])
    with None Cons.IH show ?thesis
      by (simp add: has_btih_token_Cons)
  next
    case (Some h)
    then have "btih_token_at (c # cs) [] h"
      by (simp add: match_here_iff)
    then have "has_btih_token (c # cs)"
      unfolding has_btih_token_Cons by blast
    with Some show ?thesis by simp
  qed
qed

lemma regex_match_Some:
  "regex_match s = Some h \<Longrightarrow> leftmost_token s h"
proof (induction s)
  case Nil
  then have "btih_token_at [] [] h" by (simp add: match_here_iff)
  then show ?case unfolding leftmost_token_def by (intro exI [of _ "[]"]) simp
next
  case (Cons c cs)
  show ?case
  proof (cases "match_here (c # cs)")
    case (Some g)
    with Cons.prems have g: "g = h" by simp
    with Some have t: "btih_token_at (c # cs) [] h" by (simp add: match_here_iff)
    then show ?thesis unfolding leftmost_token_def by (intro exI [of _ "[]"]) simp
  next
    case None
    with Cons.prems have "regex_match cs = Some h" by simp
    from Cons.IH [OF this] obtain pre where p: "btih_token_at cs pre h"
      and m: "\<And>pre' h'. btih_token_at cs pre' h' \<Longrightarrow> length pre \<le> length pre'"
      unfolding leftmost_token_def by blast
    have t: "btih_token_at (c # cs) (c # pre) h"
      using p by (simp add: btih_token_at_Cons)
    have "length (c # pre) \<le> length pre'"
      if a: "btih_token_at (c # cs) pre' h'" for pre' h'
    proof (cases pre')
      case Nil
      with a have "match_here (c # cs) = Some h'" by (simp add: match_here_iff)
      with None show ?thesis by simp
    next
      case (Cons d pre'')
      with a have "btih_token_at cs pre'' h'" by (simp add: btih_token_at_Cons)
      from m [OF this] Cons show ?thesis by simp
    qed
    with t show ?thesis unfolding leftmost_token_def by (intro exI [of _ "c # pre"]) blast
  qed
qed

text \<open>Two tokens that start at the same position carry the same digits.\<close>

lemma btih_token_at_same_start:
  assumes "btih_token_at s pre h" and "btih_token_at s pre' h'"
    and "length pre = length pre'"
  shows "h' = h"
proof -
  from assms(1) obtain post where s: "s = pre @ ''urn:btih:'' @ h @ post"
    and l: "length h = 40" unfolding btih_token_at_def by blast
  from assms(2) obtain post' where s': "s = pre' @ ''urn:btih:'' @ h' @ post'"
    and l': "length h' = 40" unfolding btih_token_at_def by blast
  from s s' assms(3) have "''urn:btih:'' @ h @ post = ''urn:btih:'' @ h' @ post'"
    by (metis append_eq_append_conv)
  then have "h @ post = h' @ post'" by simp
  with l l' show ?thesis by (metis append_eq_append_conv)
qed

lemma leftmost_token_unique:
  assumes "leftmost_token s h" and "leftmost_token s h'"
  shows "h' = h"
proof -
  from assms(1) obtain pre where p: "btih_token_at s pre h"
    and m: "\<And>q g. btih_token_at s q g \<Longrightarrow> length pre \<le> length q"
    unfolding leftmost_token_def by blast
  from assms(2) obtain pre' where p': "btih_token_at s pre' h'"
    and m': "\<And>q g. btih_token_at s q g \<Longrightarrow> length pre' \<le> length q"
    unfolding leftmost_token_def by blast
  from m [OF p'] m' [OF p] have "length pre = length pre'" by simp
  with p p' show ?thesis by (rule btih_token_at_same_start)
qed

lemma lower_char_hex: "isHexDigit c \<Longrightarrow> isLowerHex (lower_char c)"
  unfolding isHexDigit_def isLowerHex_def lower_char_def
  by (elim disjE | simp)+

lemma toLowerCase_hex:
  "list_all isHexDigit h \<Longrightarrow> list_all isLowerHex (toLowerCase h)"
  unfolding toLowerCase_def by (induction h) (simp_all add: lower_char_hex)

text \<open>
  Claim C3.  For every input string the magnet parser returns nothing exactly when the
  string holds no \<^verbatim>\<open>urn:btih:\<close> followed by forty hexadecimal digits (of either
  case, wherever it stands in the string); otherwise it returns the forty digits of the
  leftmost such token in lower case.  When it returns nothing, every handler answers
  400 \<^verbatim>\<open>Invalid magnet link\<close>.
\<close>

theorem extractInfoHash_leftmost_token:
  "(extractInfoHash s = None \<longleftrightarrow> \<not> has_btih_token s) \<and>
   (\<forall>h. leftmost_token s h \<longrightarrow> extractInfoHash s = Some (toLowerCase h)) \<and>
   (\<forall>r. extractInfoHash s = Some r \<longrightarrow>
      length r = 40 \<and> list_all isLowerHex r \<and>
      (\<exists>h. leftmost_token s h \<and> r = toLowerCase h)) \<and>
   (extractInfoHash s = None \<longrightarrow>
      list_files torrents add s = Send 400 ''Invalid magnet link'' \<and>
      list_files_api torrents add s = Send 400 ''Invalid magnet link'' \<and>
      stream torrents s filename rangeHeader = Send 400 ''Invalid magnet link'' \<and>
      stream_api torrents s filename rangeHeader = Send 400 ''Invalid magnet link'')"
proof (intro conjI allI impI)
  show "extractInfoHash s = None \<longleftrightarrow> \<not> has_btih_token s"
    using regex_match_None_iff [of s]
    by (cases "regex_match s") (simp_all add: extractInfoHash_def)
next
  fix h assume l: "leftmost_token s h"
  then have "has_btih_token s"
    unfolding leftmost_token_def has_btih_token_def by blast
  then obtain g where g: "regex_match s = Some g"
    using regex_match_None_iff [of s] by (cases "regex_match s") auto
  from l regex_match_Some [OF g] have "g = h"
    by (rule leftmost_token_unique)
  with g show "extractInfoHash s = Some (toLowerCase h)"
    by (simp add: extractInfoHash_def)
next
  fix r assume r: "extractInfoHash s = Some r"
  then obtain h where h: "regex_match s = Some h" and rh: "r = toLowerCase h"
    by (auto simp: extractInfoHash_def split: option.splits)
  from regex_match_Some [OF h] have l: "leftmost_token s h" .
  then have len: "length h = 40" and hex: "list_all isHexDigit h"
    unfolding leftmost_token_def btih_token_at_def by auto
  from len rh show "length r = 40" by (simp add: toLowerCase_def)
  from hex rh show "list_all isLowerHex r" by (simp add: toLowerCase_hex)
  from l rh show "\<exists>h. leftmost_token s h \<and> r = toLowerCase h" by blast
next
  assume "extractInfoHash s = None"
  then show "list_files torrents add s = Send 400 ''Invalid magnet link''"
    and "list_files_api torrents add s = Send 400 ''Invalid magnet link''"
    and "stream torrents s filename rangeHeader = Send 400 ''Invalid magnet link''"
    and "stream_api torrents s filename rangeHeader = Send 400 ''Invalid magnet link''"
    by (simp_all add: list_files_def list_files_api_def stream_def stream_api_def)
qed

theorem extractInfoHash_leftmost_token_witness:
  "extractInfoHash demo_magnet = Some demo_hash \<and>
   (\<exists>h. leftmost_token demo_magnet h \<and> demo_hash = toLowerCase h) \<and>
   length demo_hash = 40 \<and>
   extractInfoHash ''magnet:?xt=urn:btih:0123456789abcdef'' = None \<and>
   \<not> has_btih_token ''magnet:?xt=urn:btih:0123456789abcdef'' \<and>
   stream [demo_torrent] ''magnet:?xt=urn:btih:0123456789abcdef'' ''movie.mp4'' None =
     Send 400 ''Invalid magnet link''"
proof -
  have good: "extractInfoHash demo_magnet = Some demo_hash"
    by code_simp
  have bad: "extractInfoHash ''magnet:?xt=urn:btih:0123456789abcdef'' = None"
    by code_simp
  from good
    extractInfoHash_leftmost_token [of demo_magnet "[demo_torrent]" no_join "''movie.mp4''" None]
  have "length demo_hash = 40 \<and> (\<exists>h. leftmost_token demo_magnet h \<and> demo_hash = toLowerCase h)"
    by blast
  moreover from bad
    extractInfoHash_leftmost_token
      [of "''magnet:?xt=urn:btih:0123456789abcdef''" "[demo_torrent]" no_join "''movie.mp4''" None]
  have "\<not> has_btih_token ''magnet:?xt=urn:btih:0123456789abcdef'' \<and>
    stream [demo_torrent] ''magnet:?xt=urn:btih:0123456789abcdef'' ''movie.mp4'' None =
      Send 400 ''Invalid magnet link''"
    by blast
  ultimately show ?thesis using good bad by blast
qed

subsection \<open>The catalog\<close>

lemma zip_entries_acc:
  "zip_entries zipFile es acc = acc @ map (inner_entry zipFile) (filter is_media_entry es)"
  by (induction es arbitrary: acc) (simp_all add: inner_entry_def is_media_entry_def Let_def)

lemma extractZip_Entries:
  "archive f = Entries es \<Longrightarrow>
     extractZip f = Resolved (map (inner_entry f) (filter is_media_entry es))"
  by (simp add: extractZip_def zip_entries_acc)

lemma extractZip_unopened:
  "unopened_zip f \<Longrightarrow>
     (extractZip f = Pending \<and> archive f = NoCallback) \<or>
     (\<exists>err. extractZip f = Rejected err \<and>
        (archive f = StreamFails err \<or> archive f = OpenFails err))"
  by (cases "archive f") (simp_all add: unopened_zip_def extractZip_def)

lemma extractZip_file_entries:
  "getFileType (name f) = Zip \<Longrightarrow> \<not> unopened_zip f \<Longrightarrow>
     extractZip f = Resolved (file_entries f)"
  by (cases "archive f")
    (simp_all add: unopened_zip_def file_entries_def extractZip_def zip_entries_acc)

text \<open>The loop of \<^verbatim>\<open>getFiles\<close> when every archive opens, and when one does not.\<close>

lemma getFiles_loop_ok:
  "\<forall>f \<in> set fs. \<not> unopened_zip f \<Longrightarrow>
     getFiles_loop fs acc = Resolved (acc @ concat (map file_entries fs))"
proof (induction fs arbitrary: acc)
  case Nil
  show ?case by simp
next
  case (Cons f fs)
  then have nf: "\<not> unopened_zip f" and rest: "\<forall>g \<in> set fs. \<not> unopened_zip g"
    by simp_all
  show ?case
  proof (cases "getFileType (name f) = Zip")
    case True
    with nf have "extractZip f = Resolved (file_entries f)"
      by (simp add: extractZip_file_entries)
    with True Cons.IH [OF rest] show ?thesis by simp
  next
    case False
    then have "file_entries f =
        [\<lparr>entry_name = name f, entry_length = len f, entry_path = path f,
          entry_type = getFileType (name f)\<rparr>]"
      by (simp add: file_entries_def)
    with False Cons.IH [OF rest] show ?thesis by simp
  qed
qed

lemma getFiles_loop_unopened:
  "\<exists>f \<in> set fs. unopened_zip f \<Longrightarrow>
     (getFiles_loop fs acc = Pending \<and>
        (\<exists>f \<in> set fs. unopened_zip f \<and> archive f = NoCallback)) \<or>
     (\<exists>err. getFiles_loop fs acc = Rejected err \<and>
        (\<exists>f \<in> set fs. unopened_zip f \<and>
           (archive f = StreamFails err \<or> archive f = OpenFails err)))"
proof (induction fs arbitrary: acc)
  case Nil
  then show ?case by simp
next
  case (Cons f fs)
  show ?case
  proof (cases "unopened_zip f")
    case True
    then have z: "getFileType (name f) = Zip" by (simp add: unopened_zip_def)
    from extractZip_unopened [OF True] show ?thesis
    proof
      assume "extractZip f = Pending \<and> archive f = NoCallback"
      with z True show ?thesis by auto
    next
      assume "\<exists>err. extractZip f = Rejected err \<and>
        (archive f = StreamFails err \<or> archive f = OpenFails err)"
      then obtain err where "extractZip f = Rejected err"
        "archive f = StreamFails err \<or> archive f = OpenFails err" by blast
      with z True show ?thesis by auto
    qed
  next
    case False
    with Cons.prems have later: "\<exists>g \<in> set fs. unopened_zip g" by simp
    have step: "getFiles_loop (f # fs) acc = getFiles_loop fs (acc @ file_entries f)"
    proof (cases "getFileType (name f) = Zip")
      case True
      with False have "extractZip f = Resolved (file_entries f)"
        by (simp add: extractZip_file_entries)
      with True show ?thesis by simp
    next
      case False
      then show ?thesis by (simp add: file_entries_def)
    qed
    from Cons.IH [OF later, of "acc @ file_entries f"] step show ?thesis by auto
  qed
qed

lemma getFiles_Resolved:
  assumes "getFiles t = Resolved catalog"
  shows "\<forall>f \<in> set (files t). \<not> unopened_zip f"
    and "catalog = concat (map file_entries (files t))"
proof -
  show ok: "\<forall>f \<in> set (files t). \<not> unopened_zip f"
  proof (rule ccontr)
    assume "\<not> (\<forall>f \<in> set (files t). \<not> unopened_zip f)"
    then have "\<exists>f \<in> set (files t). unopened_zip f" by simp
    from getFiles_loop_unopened [OF this, of "[]"] assms show False
      by (auto simp: getFiles_def)
  qed
  from getFiles_loop_ok [OF ok, of "[]"] assms
  show "catalog = concat (map file_entries (files t))"
    by (simp add: getFiles_def)
qed

lemma file_entries_not_zip:
  "e \<in> set (file_entries f) \<Longrightarrow> entry_type e \<noteq> Zip"
  by (cases "archive f")
    (auto simp: file_entries_def inner_entry_def is_media_entry_def split: if_splits)

text \<open>
  What does hold of the two catalog builders: when the one of \<^verbatim>\<open>part_000\<close> returns a
  catalog, the catalog lists no ZIP file itself and lists every other file of the
  torrent with the kind it has; the one of \<^verbatim>\<open>src/api/index.js\<close> lists videos and
  images only.
\<close>

lemma getFiles_never_lists_zip:
  assumes "getFiles t = Resolved catalog" and "e \<in> set catalog"
  shows "entry_type e \<noteq> Zip"
proof -
  from getFiles_Resolved(2) [OF assms(1)] assms(2)
  obtain f where "e \<in> set (file_entries f)" by auto
  then show ?thesis by (rule file_entries_not_zip)
qed

lemma getFiles_lists_every_plain_file:
  assumes "getFiles t = Resolved catalog" and "f \<in> set (files t)"
    and "getFileType (name f) \<noteq> Zip"
  shows "\<lparr>entry_name = name f, entry_length = len f, entry_path = path f,
          entry_type = getFileType (name f)\<rparr> \<in> set catalog"
proof -
  from assms(3) have "file_entries f =
      [\<lparr>entry_name = name f, entry_length = len f, entry_path = path f,
        entry_type = getFileType (name f)\<rparr>]"
    by (simp add: file_entries_def)
  with assms(2) getFiles_Resolved(2) [OF assms(1)] show ?thesis by force
qed

lemma getFiles_api_media_only:
  "e \<in> set (getFiles_api t) \<Longrightarrow> entry_type e = Video \<or> entry_type e = Image"
  by (simp add: getFiles_api_def)

text \<open>File kinds of the sample names.\<close>

lemma sample_kinds:
  "getFileType ''movie.mp4'' = Video"
  "getFileType ''poster.jpg'' = Image"
  "getFileType ''readme.txt'' = Other"
  "getFileType ''pack.zip'' = Zip"
  "getFileType ''broken.zip'' = Zip"
  "getFileType ''extras/'' = Other"
  "getFileType ''tiny.mp4'' = Video"
  "getFileType_api ''movie.mp4'' = Video"
  "getFileType_api ''poster.jpg'' = Image"
  "getFileType_api ''readme.txt'' = Other"
  "getFileType_api ''pack.zip'' = Other"
  by code_simp+

lemma sample_slashes:
  "\<not> endsWithSlash ''movie.mp4''" "\<not> endsWithSlash ''poster.jpg''" "endsWithSlash ''extras/''"
  by (simp_all add: endsWithSlash_def)

lemma sample_hash: "extractInfoHash demo_magnet = Some demo_hash"
  by code_simp

lemmas sample_files = movie_def poster_def readme_def pack_def broken_def unpacked_def
  refused_def tiny_def

text \<open>
  Claim C4 (the code departs from it).  The catalog builder of \<^verbatim>\<open>part_000\<close>, whose
  comment says it gets the video and image files, lists every file that is not a ZIP
  archive with the kind it has: for a torrent of a video, an image and a text file the
  listing holds an entry of kind \<open>Other\<close> for \<^verbatim>\<open>readme.txt\<close>.
\<close>

theorem getFiles_lists_other_files:
  "list_files [plain_torrent] no_join demo_magnet =
     Json
       [\<lparr>entry_name = ''movie.mp4'', entry_length = 5000000,
          entry_path = ''demo/movie.mp4'', entry_type = Video\<rparr>,
        \<lparr>entry_name = ''poster.jpg'', entry_length = 20000,
          entry_path = ''demo/poster.jpg'', entry_type = Image\<rparr>,
        \<lparr>entry_name = ''readme.txt'', entry_length = 120,
          entry_path = ''demo/readme.txt'', entry_type = Other\<rparr>]"
  by (simp add: list_files_def sample_hash plain_torrent_def answer_files_def getFiles_def
      sample_files sample_kinds)

text \<open>The builder of \<^verbatim>\<open>src/api/index.js\<close> on the same torrent, for comparison.\<close>

lemma getFiles_api_sample:
  "list_files_api [plain_torrent] no_join demo_magnet =
     Json
       [\<lparr>entry_name = ''movie.mp4'', entry_length = 5000000,
          entry_path = ''demo/movie.mp4'', entry_type = Video\<rparr>,
        \<lparr>entry_name = ''poster.jpg'', entry_length = 20000,
          entry_path = ''demo/poster.jpg'', entry_type = Image\<rparr>]"
  by (simp add: list_files_api_def sample_hash plain_torrent_def getFiles_api_def
      sample_files sample_kinds)

text \<open>
  Claim C5 (the code departs from it).  The expander hands a callback to
  \<^verbatim>\<open>createReadStream\<close>, which returns the stream and calls nothing back: for the ZIP
  file of the sample torrent the promise of the expander stays pending, no inner entry
  is yielded, the catalog builder never returns and the listing is never answered.
\<close>

theorem extractZip_never_settles:
  "extractZip pack = Pending \<and>
   getFiles demo_torrent = Pending \<and>
   list_files [demo_torrent] no_join demo_magnet = NoResponse \<and>
   list_files [] (joins demo_torrent) demo_magnet = NoResponse"
  by (simp add: list_files_def sample_hash demo_torrent_def answer_files_def getFiles_def
      sample_files sample_kinds extractZip_def joins_def)

text \<open>
  The walk over the central directory that the callback holds does what the claim
  says: under an engine that called back with the bytes of an archive, the expander
  would yield, in the order of the central directory, exactly the entries whose name
  does not end in \<^verbatim>\<open>/\<close> and whose extension is that of a video or an image, each with
  the entry's name, its uncompressed size, and the archive file's path, a \<^verbatim>\<open>/\<close> and
  the entry's name as path.
\<close>

lemma extractZip_delivered_archive:
  assumes "archive zipFile = Entries es"
  shows "extractZip zipFile =
     Resolved (map (\<lambda>e. \<lparr>entry_name = fileName e, entry_length = uncompressedSize e,
                          entry_path = path zipFile @ ''/'' @ fileName e,
                          entry_type = getFileType (fileName e)\<rparr>)
                 (filter (\<lambda>e. \<not> endsWithSlash (fileName e) \<and>
                               (getFileType (fileName e) = Video \<or>
                                getFileType (fileName e) = Image)) es))"
proof -
  have "inner_entry zipFile =
      (\<lambda>e. \<lparr>entry_name = fileName e, entry_length = uncompressedSize e,
             entry_path = path zipFile @ ''/'' @ fileName e,
             entry_type = getFileType (fileName e)\<rparr>)"
    by (rule ext) (simp add: inner_entry_def)
  moreover have "is_media_entry =
      (\<lambda>e. \<not> endsWithSlash (fileName e) \<and>
            (getFileType (fileName e) = Video \<or> getFileType (fileName e) = Image))"
    by (rule ext) (simp add: is_media_entry_def)
  ultimately show ?thesis
    using extractZip_Entries [OF assms] by simp
qed

lemma extractZip_delivered_sample:
  "extractZip unpacked =
     Resolved [\<lparr>entry_name = ''movie.mp4'', entry_length = 700,
                 entry_path = ''demo/pack.zip/movie.mp4'', entry_type = Video\<rparr>,
               \<lparr>entry_name = ''poster.jpg'', entry_length = 300,
                 entry_path = ''demo/pack.zip/poster.jpg'', entry_type = Image\<rparr>]"
proof -
  have a: "archive unpacked =
      Entries [\<lparr>fileName = ''movie.mp4'', uncompressedSize = 700\<rparr>,
               \<lparr>fileName = ''poster.jpg'', uncompressedSize = 300\<rparr>,
               \<lparr>fileName = ''extras/'', uncompressedSize = 0\<rparr>]"
    by (simp add: unpacked_def)
  show ?thesis
    using extractZip_delivered_archive [OF a]
    by (simp add: sample_kinds sample_slashes unpacked_def)
qed




subsection \<open>Integers up to \<open>2^53\<close> are doubles\<close>

lemma bit_length_le: "n < 2 ^ k \<Longrightarrow> bit_length n \<le> int k"
proof (induction k arbitrary: n)
  case 0
  then have "n \<le> 0" by simp
  then show ?case by (simp add: bit_length.simps [of n])
next
  case (Suc k)
  show ?case
  proof (cases "n \<le> 0")
    case True
    then show ?thesis by (simp add: bit_length.simps [of n])
  next
    case False
    from Suc.prems have "n div 2 < 2 ^ k" by simp
    from Suc.IH [OF this] False show ?thesis
      by (simp add: bit_length.simps [of n])
  qed
qed

lemma bit_length_pow2: "bit_length (2 ^ k) = int k + 1"
proof (induction k)
  case 0
  show ?case by (simp add: bit_length.simps [of 1] bit_length.simps [of 0])
next
  case (Suc k)
  have "(2::int) ^ Suc k div 2 = 2 ^ k" by simp
  moreover have "\<not> (2::int) ^ Suc k \<le> 0" by simp
  ultimately show ?case
    using Suc.IH by (simp add: bit_length.simps [of "2 ^ Suc k"] del: power_Suc)
qed

lemma round_half_even_of_int: "round_half_even (of_int j) = j"
  by (simp add: round_half_even_def)

text \<open>Integers of magnitude at most \<open>2^53\<close> are doubles.\<close>

lemma toDouble_pos_int:
  assumes "0 < n" and "n \<le> 2 ^ 53"
  shows "toDouble (of_int n) = Num (of_int n)" and "toDouble (- of_int n) = Num (- of_int n)"
proof -
  define a :: rat where "a = of_int n"
  have apos: "0 < a" "a \<noteq> 0" "\<bar>a\<bar> = a" "1 \<le> a"
    using assms(1) by (simp_all add: a_def)
  have "a \<le> 2 ^ 53" using assms(2) unfolding a_def
    by (metis of_int_le_iff of_int_numeral of_int_power)
  also have "(2::rat) ^ 53 < 2 ^ 1024 - 2 ^ 970" by simp
  finally have small: "\<not> 2 ^ 1024 - 2 ^ 970 \<le> a" by simp
  have fl: "floor_log2 a = bit_length n - 1"
    using apos by (simp add: floor_log2_def a_def)
  have core: "of_int (round_half_even (a / pow2 (max (floor_log2 a - 52) (- 1074)))) *
      pow2 (max (floor_log2 a - 52) (- 1074)) = a"
  proof (cases "n = 2 ^ 53")
    case True
    then have "bit_length n = 54" using bit_length_pow2 [of 53] by simp
    with fl have e: "max (floor_log2 a - 52) (- 1074) = 1" by simp
    from True have "a = 2 ^ 53" by (simp add: a_def)
    then have "a / pow2 1 = of_int (2 ^ 52)" by (simp add: pow2_def)
    then have "round_half_even (a / pow2 1) = 2 ^ 52"
      by (simp only: round_half_even_of_int)
    with \<open>a = 2 ^ 53\<close> e show ?thesis by (simp add: pow2_def)
  next
    case False
    with assms(2) have "n < 2 ^ 53" by simp
    then have "bit_length n \<le> 53" using bit_length_le [of n 53] by simp
    with fl have "max (floor_log2 a - 52) (- 1074) \<le> 0" by simp
    then obtain k where e: "max (floor_log2 a - 52) (- 1074) = - int k"
      by (metis nonpos_int_cases)
    have p: "pow2 (- int k) = 1 / 2 ^ k"
      by (cases "k = 0") (simp_all add: pow2_def)
    have "a / pow2 (- int k) = of_int (n * 2 ^ k)"
      by (simp add: p a_def)
    then have "round_half_even (a / pow2 (- int k)) = n * 2 ^ k"
      by (simp only: round_half_even_of_int)
    then show ?thesis unfolding e by (simp add: p a_def)
  qed
  show "toDouble (of_int n) = Num (of_int n)"
    using apos small core unfolding a_def [symmetric]
    by (simp add: toDouble_def Let_def)
  have "\<bar>- a\<bar> = a" "\<not> 0 < - a" "- a \<noteq> 0" using apos by simp_all
  then show "toDouble (- of_int n) = Num (- of_int n)"
    using small core unfolding a_def [symmetric]
    by (simp add: toDouble_def Let_def)
qed

lemma toDouble_exact:
  assumes "x \<in> \<int>" and "\<bar>x\<bar> \<le> 2 ^ 53"
  shows "toDouble x = Num x"
proof -
  from assms(1) obtain j where x: "x = of_int j" by (auto elim: Ints_cases)
  from assms(2) x have b: "\<bar>j\<bar> \<le> 2 ^ 53"
    by (metis of_int_abs of_int_le_iff of_int_numeral of_int_power)
  consider "j = 0" | "0 < j" | "j < 0" by linarith
  then show ?thesis
  proof cases
    case 1
    with x show ?thesis by (simp add: toDouble_def)
  next
    case 2
    with b have "j \<le> 2 ^ 53" by simp
    from toDouble_pos_int(1) [OF 2 this] x show ?thesis by simp
  next
    case 3
    then have "0 < - j" by simp
    moreover from 3 b have "- j \<le> 2 ^ 53" by simp
    ultimately have "toDouble (- of_int (- j)) = Num (- of_int (- j))"
      by (rule toDouble_pos_int(2))
    with x show ?thesis by simp
  qed
qed

lemma toDouble_of_int:
  "\<bar>k\<bar> \<le> 2 ^ 53 \<Longrightarrow> toDouble (of_int k) = Num (of_int k)"
proof -
  assume "\<bar>k\<bar> \<le> 2 ^ 53"
  then have "\<bar>of_int k :: rat\<bar> \<le> 2 ^ 53"
    by (metis of_int_abs of_int_le_iff of_int_numeral of_int_power)
  then show ?thesis by (simp add: toDouble_exact)
qed

subsection \<open>Parsing the Range header\<close>

lemmas number_defs = range_numbers_def Number_def trim_def isWhiteSpace_def
  nonDecimalIntegerLiteral_def strUnsignedDecimalLiteral_def isDigit_def digits_value_def
  digit_of_def lower_char_def exponentPart_def signedInteger_def allDigits_def scale10_def
  startsWith_def isDigitBelow_def Let_def

lemma range_numbers_bytes:
  "range_numbers (''bytes='' @ r) = map Number (split CHR ''-'' r)"
  by (simp add: range_numbers_def startsWith_def)

lemma split_at_sep:
  "sep \<notin> set ds \<Longrightarrow> split sep (ds @ sep # rest) = ds # split sep rest"
  by (induction ds) auto

lemma split_without_sep: "sep \<notin> set ds \<Longrightarrow> split sep ds = [ds]"
  by (induction ds) auto

lemma isDigit_not_special:
  assumes "isDigit c"
  shows "\<not> isWhiteSpace c" and "c \<noteq> CHR ''-''" and "c \<noteq> CHR ''+''" and "c \<noteq> CHR ''I''"
    and "c \<notin> set ''xX''" and "c \<notin> set ''oO''" and "c \<notin> set ''bB''"
  using assms unfolding isDigit_def isWhiteSpace_def by auto

lemma digits_no_dash: "list_all isDigit ds \<Longrightarrow> CHR ''-'' \<notin> set ds"
  by (induction ds) (auto dest: isDigit_not_special(2))

lemma trim_digits:
  assumes "allDigits ds"
  shows "trim ds = ds"
proof -
  from assms have ne: "ds \<noteq> []" and all: "list_all isDigit ds"
    by (simp_all add: allDigits_def)
  from ne all have "isDigit (hd ds)" by (cases ds) simp_all
  then have front: "dropWhile isWhiteSpace ds = ds"
    using ne by (cases ds) (simp_all add: isDigit_not_special(1))
  from ne all have "isDigit (last ds)"
    by (simp add: list_all_iff)
  with ne have "\<not> isWhiteSpace (hd (rev ds))"
    by (simp add: hd_rev isDigit_not_special(1))
  with ne have "dropWhile isWhiteSpace (rev ds) = rev ds"
    by (cases "rev ds") simp_all
  with front show ?thesis by (simp add: trim_def)
qed

lemma nonDecimal_digits:
  assumes "list_all isDigit t"
  shows "nonDecimalIntegerLiteral t = None"
proof (cases t)
  case Nil
  then show ?thesis by (simp add: nonDecimalIntegerLiteral_def)
next
  case (Cons z r)
  show ?thesis
  proof (cases r)
    case Nil
    with Cons show ?thesis by (simp add: nonDecimalIntegerLiteral_def)
  next
    case (Cons x ds)
    with \<open>t = z # r\<close> assms have "isDigit x" by simp
    then have "x \<notin> set ''xX''" "x \<notin> set ''oO''" "x \<notin> set ''bB''"
      by (rule isDigit_not_special)+
    with Cons \<open>t = z # r\<close> show ?thesis
      by (simp add: nonDecimalIntegerLiteral_def)
  qed
qed

lemma unsigned_digits:
  assumes "allDigits t"
  shows "strUnsignedDecimalLiteral t = Some (toDouble (of_int (digits_value 10 t)))"
proof -
  from assms have ne: "t \<noteq> []" and all: "list_all isDigit t"
    by (simp_all add: allDigits_def)
  have "t \<noteq> ''Infinity''"
  proof
    assume "t = ''Infinity''"
    with all have "isDigit CHR ''I''" by simp
    then show False by (simp add: isDigit_def)
  qed
  moreover from all have tw: "takeWhile isDigit t = t"
    by (simp add: takeWhile_eq_all_conv list_all_iff)
  moreover from all have dw: "dropWhile isDigit t = []"
    by (simp add: dropWhile_eq_Nil_conv list_all_iff)
  ultimately show ?thesis
    using ne by (simp add: strUnsignedDecimalLiteral_def Let_def tw dw)
qed

text \<open>
  \<^verbatim>\<open>Number\<close> of a string of decimal digits is the number the digits denote, rounded.
\<close>

lemma Number_digits:
  assumes "allDigits ds"
  shows "Number ds = toDouble (of_int (digits_value 10 ds))"
proof -
  from assms have ne: "ds \<noteq> []" and all: "list_all isDigit ds"
    by (simp_all add: allDigits_def)
  then obtain c u where cu: "ds = c # u" and c: "isDigit c"
    by (cases ds) simp_all
  from c have "c \<noteq> CHR ''+''" "c \<noteq> CHR ''-''"
    by (simp_all add: isDigit_not_special)
  with cu ne show ?thesis
    using trim_digits [OF assms] nonDecimal_digits [OF all] unsigned_digits [OF assms]
    by (simp add: Number_def)
qed

lemma Number_empty: "Number [] = Num 0"
  by (simp add: Number_def trim_def)

lemma Number_zero: "Number ''0'' = Num 0"
  by (simp add: number_defs toDouble_def)

lemma range_numbers_open:
  assumes "allDigits ds"
  shows "range_numbers (''bytes='' @ ds @ ''-'') =
    [toDouble (of_int (digits_value 10 ds)), Num 0]"
proof -
  from assms have "CHR ''-'' \<notin> set ds"
    by (simp add: allDigits_def digits_no_dash)
  then have "split CHR ''-'' (ds @ ''-'') = [ds, []]"
    by (simp add: split_at_sep)
  moreover have "range_numbers (''bytes='' @ ds @ ''-'') =
      map Number (split CHR ''-'' (ds @ ''-''))"
    by (rule range_numbers_bytes)
  ultimately show ?thesis
    by (simp only: list.map Number_digits [OF assms] Number_empty)
qed

lemma range_numbers_zero:
  assumes "allDigits ds"
  shows "range_numbers (''bytes='' @ ds @ ''-0'') =
    [toDouble (of_int (digits_value 10 ds)), Num 0]"
proof -
  from assms have "CHR ''-'' \<notin> set ds"
    by (simp add: allDigits_def digits_no_dash)
  then have "split CHR ''-'' (ds @ ''-0'') = [ds, ''0'']"
    by (simp add: split_at_sep)
  moreover have "range_numbers (''bytes='' @ ds @ ''-0'') =
      map Number (split CHR ''-'' (ds @ ''-0''))"
    by (rule range_numbers_bytes)
  ultimately show ?thesis
    by (simp only: list.map Number_digits [OF assms] Number_zero)
qed

lemma range_numbers_start_only:
  assumes "allDigits ds"
  shows "range_numbers (''bytes='' @ ds) = [toDouble (of_int (digits_value 10 ds))]"
proof -
  from assms have "CHR ''-'' \<notin> set ds"
    by (simp add: allDigits_def digits_no_dash)
  then have "split CHR ''-'' ds = [ds]"
    by (rule split_without_sep)
  moreover have "range_numbers (''bytes='' @ ds) = map Number (split CHR ''-'' ds)"
    by (rule range_numbers_bytes)
  ultimately show ?thesis
    by (simp only: list.map Number_digits [OF assms])
qed

lemma digit_of_nonneg: "digit_of c = Some d \<Longrightarrow> 0 \<le> d"
  by (auto simp: digit_of_def split: if_splits)

lemma digits_fold_nonneg:
  "0 \<le> a \<Longrightarrow>
     0 \<le> foldl (\<lambda>a c. 10 * a + (case digit_of c of Some d \<Rightarrow> d | None \<Rightarrow> 0)) a ds"
proof (induction ds arbitrary: a)
  case Nil
  then show ?case by simp
next
  case (Cons c ds)
  have "0 \<le> (case digit_of c of Some d \<Rightarrow> d | None \<Rightarrow> 0)"
    by (cases "digit_of c") (simp_all add: digit_of_nonneg)
  with Cons.prems have "0 \<le> 10 * a + (case digit_of c of Some d \<Rightarrow> d | None \<Rightarrow> 0)"
    by simp
  from Cons.IH [OF this] show ?case by simp
qed

lemma digits_value_nonneg: "0 \<le> digits_value 10 ds"
  using digits_fold_nonneg [of 0 ds] by (simp add: digits_value_def)

text \<open>
  The response when the start is a natural number, the end is falsy (0, \<^verbatim>\<open>NaN\<close> or
  \<^verbatim>\<open>undefined\<close>), and the start plus \<open>10^6\<close> and the length of the file do not exceed
  \<open>2^53\<close>: every number of the computation is then an integer that is a double.
\<close>

lemma serve_range_falsy_end:
  assumes s: "element (range_numbers r) 0 = toDouble (of_int n)"
    and n0: "0 \<le> n" and nb: "n + 1000000 \<le> 2 ^ 53"
    and lb: "int fileLength \<le> 2 ^ 53"
    and e: "\<not> truthy (element (range_numbers r) 1)"
  shows "serve_range fileLength r =
     \<lparr>range_start = Num (of_int n),
      range_end = Num (min (of_int n + 1000000) (of_nat fileLength - 1)),
      range_size = Num (of_nat fileLength),
      content_length = Num (min (of_int n + 1000000) (of_nat fileLength - 1) - of_int n + 1),
      content_type = ''video/mp4'',
      read_start = Num (of_int n),
      read_end = Num (min (of_int n + 1000000) (of_nat fileLength - 1))\<rparr>"
proof -
  define w where "w = min (n + 1000000) (int fileLength - 1)"
  have wr: "min (of_int n + 1000000) (of_nat fileLength - 1) = (of_int w :: rat)"
    unfolding w_def by (simp add: min_def)
  have start: "toDouble (of_int n) = Num (of_int n)"
    using n0 nb by (intro toDouble_of_int) simp
  have size: "toDouble (of_nat fileLength) = Num (of_nat fileLength)"
    using lb toDouble_of_int [of "int fileLength"] by simp
  have "toDouble (of_int n + 1000000) = toDouble (of_int (n + 1000000))" by simp
  also have "\<dots> = Num (of_int (n + 1000000))"
    using n0 nb by (intro toDouble_of_int) simp
  finally have plus: "toDouble (of_int n + 1000000) = Num (of_int n + 1000000)" by simp
  have "toDouble (of_nat fileLength - 1) = toDouble (of_int (int fileLength - 1))" by simp
  also have "\<dots> = Num (of_int (int fileLength - 1))"
    using lb by (intro toDouble_of_int) simp
  finally have last: "toDouble (of_nat fileLength - 1) = Num (of_nat fileLength - 1)" by simp
  have wb: "- 1 \<le> w" "w \<le> n + 1000000" "w \<le> 2 ^ 53"
    using n0 nb lb unfolding w_def by simp_all
  have "toDouble (of_int w - of_int n) = toDouble (of_int (w - n))" by simp
  also have "\<dots> = Num (of_int (w - n))"
    using wb n0 nb by (intro toDouble_of_int) simp
  finally have diff: "toDouble (of_int w - of_int n) = Num (of_int w - of_int n)" by simp
  have "toDouble (of_int w - of_int n + 1) = toDouble (of_int (w - n + 1))" by simp
  also have "\<dots> = Num (of_int (w - n + 1))"
    using wb n0 nb by (intro toDouble_of_int) simp
  finally have len: "toDouble (of_int w - of_int n + 1) = Num (of_int w - of_int n + 1)"
    by simp
  show ?thesis
    using e
    by (simp add: serve_range_def Let_def chunkEnd_def Math_min_def js_plus_def js_minus_def
        s start size plus last wr diff len)
qed

lemma stream_resolved:
  assumes "resolves torrents magnet filename f"
  shows "stream torrents magnet filename rangeHeader =
     (if getFileType (name f) = Video then
        (if missing rangeHeader then Send 400 ''Requires Range header''
         else Partial (serve_range (len f) (the rangeHeader)))
      else Whole (''image/'' @ drop 1 (extname (name f))))"
  using assms
  by (auto simp: resolves_def stream_def missing_def split: option.splits)

lemma stream_api_resolved:
  assumes "resolves torrents magnet filename f"
  shows "stream_api torrents magnet filename rangeHeader =
     (if missing rangeHeader then Send 400 ''Requires Range header''
      else Partial (serve_range (len f) (the rangeHeader)))"
  using assms
  by (auto simp: resolves_def stream_api_def missing_def split: option.splits)

lemma sample_resolves:
  "resolves [demo_torrent] demo_magnet ''movie.mp4'' movie"
  "resolves [demo_torrent] demo_magnet ''poster.jpg'' poster"
  "resolves [tiny_torrent] demo_magnet ''tiny.mp4'' tiny"
  by (simp_all add: resolves_def sample_hash demo_torrent_def tiny_torrent_def sample_files)

lemma sample_numbers:
  "range_numbers ''bytes=0-'' = [Num 0, Num 0]"
  "range_numbers ''bytes=4999000-'' = [Num 4999000, Num 0]"
  "range_numbers ''bytes=0-0'' = [Num 0, Num 0]"
  "range_numbers ''bytes=10-5'' = [Num 10, Num 5]"
  "range_numbers ''bytes=0-9999999'' = [Num 0, Num 9999999]"
  "range_numbers ''bytes=abc-'' = [NaN, Num 0]"
  by (simp_all add: number_defs toDouble_exact)

lemma sample_extname: "extname ''poster.jpg'' = ''.jpg''"
  by code_simp

lemma sample_digits:
  "allDigits ''0''" "digits_value 10 ''0'' = 0"
  "allDigits ''4999000''" "digits_value 10 ''4999000'' = 4999000"
  by (simp_all add: allDigits_def isDigit_def digits_value_def digit_of_def lower_char_def)

lemmas range_arith = serve_range_def Let_def element_def chunkEnd_def Math_min_def
  js_plus_def js_minus_def toDouble_exact

subsection \<open>The default window\<close>

text \<open>
  Claim C1 fails on the code: for a file of 5,000,000 bytes and \<^verbatim>\<open>Range: bytes=0-\<close>
  the end is 1,000,000 and the content length 1,000,001, not 999,999 and 1,000,000.
\<close>

theorem default_window_has_one_more_byte:
  "stream [demo_torrent] demo_magnet ''movie.mp4'' (Some ''bytes=0-'') =
     Partial \<lparr>range_start = Num 0, range_end = Num 1000000, range_size = Num 5000000,
              content_length = Num 1000001, content_type = ''video/mp4'',
              read_start = Num 0, read_end = Num 1000000\<rparr> \<and>
   stream_api [demo_torrent] demo_magnet ''movie.mp4'' (Some ''bytes=0-'') =
     Partial \<lparr>range_start = Num 0, range_end = Num 1000000, range_size = Num 5000000,
              content_length = Num 1000001, content_type = ''video/mp4'',
              read_start = Num 0, read_end = Num 1000000\<rparr> \<and>
   range_end (serve_range 5000000 ''bytes=0-'') \<noteq> Num 999999 \<and>
   content_length (serve_range 5000000 ''bytes=0-'') \<noteq> Num 1000000"
  by (simp add: stream_resolved [OF sample_resolves(1)]
      stream_api_resolved [OF sample_resolves(1)] missing_def movie_def sample_kinds
      sample_numbers range_arith)

text \<open>
  Claim C1 as amended.  For every stream request that reaches the range computation
  with a header \<^verbatim>\<open>bytes=<start>-\<close> (or \<^verbatim>\<open>bytes=<start>\<close>), start a string of decimal
  digits, where start plus 1,000,000 and the length of the file do not exceed \<open>2^53\<close>
  (so that the doubles of the computation are the integers themselves), the response
  is a 206 whose end is \<open>min (start + 1000000) (length - 1)\<close> and whose content length
  is that end minus the start plus one; the read is opened on the same interval.
\<close>

theorem omitted_end_default_window:
  assumes "resolves torrents magnet filename f" and "allDigits ds"
    and "digits_value 10 ds + 1000000 \<le> 2 ^ 53" and "int (len f) \<le> 2 ^ 53"
  shows
    "let n = of_int (digits_value 10 ds);
         e = min (n + 1000000) (of_nat (len f) - 1);
         window = \<lparr>range_start = Num n, range_end = Num e,
                   range_size = Num (of_nat (len f)),
                   content_length = Num (e - n + 1), content_type = ''video/mp4'',
                   read_start = Num n, read_end = Num e\<rparr>
     in (getFileType (name f) = Video \<longrightarrow>
           stream torrents magnet filename (Some (''bytes='' @ ds @ ''-'')) = Partial window \<and>
           stream torrents magnet filename (Some (''bytes='' @ ds)) = Partial window) \<and>
        stream_api torrents magnet filename (Some (''bytes='' @ ds @ ''-'')) = Partial window \<and>
        stream_api torrents magnet filename (Some (''bytes='' @ ds)) = Partial window"
proof -
  have a: "serve_range (len f) (''bytes='' @ ds @ ''-'') =
      \<lparr>range_start = Num (of_int (digits_value 10 ds)),
       range_end = Num (min (of_int (digits_value 10 ds) + 1000000) (of_nat (len f) - 1)),
       range_size = Num (of_nat (len f)),
       content_length =
         Num (min (of_int (digits_value 10 ds) + 1000000) (of_nat (len f) - 1) -
              of_int (digits_value 10 ds) + 1),
       content_type = ''video/mp4'',
       read_start = Num (of_int (digits_value 10 ds)),
       read_end = Num (min (of_int (digits_value 10 ds) + 1000000) (of_nat (len f) - 1))\<rparr>"
    by (rule serve_range_falsy_end [OF _ digits_value_nonneg assms(3) assms(4)])
      (simp_all only: range_numbers_open [OF assms(2)] element_def, simp_all)
  have b: "serve_range (len f) (''bytes='' @ ds) =
      \<lparr>range_start = Num (of_int (digits_value 10 ds)),
       range_end = Num (min (of_int (digits_value 10 ds) + 1000000) (of_nat (len f) - 1)),
       range_size = Num (of_nat (len f)),
       content_length =
         Num (min (of_int (digits_value 10 ds) + 1000000) (of_nat (len f) - 1) -
              of_int (digits_value 10 ds) + 1),
       content_type = ''video/mp4'',
       read_start = Num (of_int (digits_value 10 ds)),
       read_end = Num (min (of_int (digits_value 10 ds) + 1000000) (of_nat (len f) - 1))\<rparr>"
    by (rule serve_range_falsy_end [OF _ digits_value_nonneg assms(3) assms(4)])
      (simp_all only: range_numbers_start_only [OF assms(2)] element_def, simp_all)
  have m: "\<not> missing (Some (''bytes='' @ ds @ ''-''))" "\<not> missing (Some (''bytes='' @ ds))"
    by (simp_all add: missing_def)
  define h1 where "h1 = ''bytes='' @ ds @ ''-''"
  define h2 where "h2 = ''bytes='' @ ds"
  note facts = a [folded h1_def] b [folded h2_def] m(1) [folded h1_def] m(2) [folded h2_def]
  show ?thesis
    unfolding Let_def stream_resolved [OF assms(1)] stream_api_resolved [OF assms(1)]
    unfolding h1_def [symmetric] h2_def [symmetric]
    by (simp add: facts)
qed

theorem omitted_end_default_window_witness:
  "resolves [demo_torrent] demo_magnet ''movie.mp4'' movie \<and> allDigits ''4999000'' \<and>
   digits_value 10 ''4999000'' + 1000000 \<le> 2 ^ 53 \<and> int (len movie) \<le> 2 ^ 53 \<and>
   stream [demo_torrent] demo_magnet ''movie.mp4'' (Some ''bytes=0-'') =
     Partial \<lparr>range_start = Num 0, range_end = Num 1000000, range_size = Num 5000000,
              content_length = Num 1000001, content_type = ''video/mp4'',
              read_start = Num 0, read_end = Num 1000000\<rparr> \<and>
   stream [demo_torrent] demo_magnet ''movie.mp4'' (Some ''bytes=4999000-'') =
     Partial \<lparr>range_start = Num 4999000, range_end = Num 4999999, range_size = Num 5000000,
              content_length = Num 1000, content_type = ''video/mp4'',
              read_start = Num 4999000, read_end = Num 4999999\<rparr>"
proof -
  have v: "getFileType (name movie) = Video" and l: "len movie = 5000000"
    by (simp_all add: movie_def sample_kinds)
  have b: "digits_value 10 ''0'' + 1000000 \<le> 2 ^ 53"
    "digits_value 10 ''4999000'' + 1000000 \<le> 2 ^ 53" "int (len movie) \<le> 2 ^ 53"
    by (simp_all add: sample_digits l)
  from omitted_end_default_window [OF sample_resolves(1) sample_digits(1) b(1) b(3)] v l
  have "stream [demo_torrent] demo_magnet ''movie.mp4'' (Some ''bytes=0-'') =
     Partial \<lparr>range_start = Num 0, range_end = Num 1000000, range_size = Num 5000000,
              content_length = Num 1000001, content_type = ''video/mp4'',
              read_start = Num 0, read_end = Num 1000000\<rparr>"
    by (simp add: Let_def sample_digits)
  moreover
  from omitted_end_default_window [OF sample_resolves(1) sample_digits(3) b(2) b(3)] v l
  have "stream [demo_torrent] demo_magnet ''movie.mp4'' (Some ''bytes=4999000-'') =
     Partial \<lparr>range_start = Num 4999000, range_end = Num 4999999, range_size = Num 5000000,
              content_length = Num 1000, content_type = ''video/mp4'',
              read_start = Num 4999000, read_end = Num 4999999\<rparr>"
    by (simp add: Let_def sample_digits)
  ultimately show ?thesis
    using sample_resolves(1) sample_digits(3) b by simp
qed

subsection \<open>An explicit end of 0\<close>

text \<open>
  Claim C10 fails on the code as it is stated: on a video of one byte the header
  \<^verbatim>\<open>bytes=0-0\<close> is answered with exactly the byte asked for, and in \<^verbatim>\<open>part_000\<close> an
  image is piped whole, whatever the header, and not in a window.
\<close>

theorem zero_end_on_one_byte_file:
  "stream [tiny_torrent] demo_magnet ''tiny.mp4'' (Some ''bytes=0-0'') =
     Partial \<lparr>range_start = Num 0, range_end = Num 0, range_size = Num 1,
              content_length = Num 1, content_type = ''video/mp4'',
              read_start = Num 0, read_end = Num 0\<rparr> \<and>
   stream_api [tiny_torrent] demo_magnet ''tiny.mp4'' (Some ''bytes=0-0'') =
     Partial \<lparr>range_start = Num 0, range_end = Num 0, range_size = Num 1,
              content_length = Num 1, content_type = ''video/mp4'',
              read_start = Num 0, read_end = Num 0\<rparr> \<and>
   stream [demo_torrent] demo_magnet ''poster.jpg'' (Some ''bytes=0-0'') = Whole ''image/jpg''"
  by (simp add: stream_resolved [OF sample_resolves(3)]
      stream_api_resolved [OF sample_resolves(3)] stream_resolved [OF sample_resolves(2)]
      missing_def tiny_def poster_def sample_kinds sample_extname sample_numbers range_arith)

text \<open>
  Claim C10 as amended.  For a request that reaches the range computation (every file
  in \<^verbatim>\<open>src/api/index.js\<close>, a video file in \<^verbatim>\<open>part_000\<close>) a header
  \<^verbatim>\<open>bytes=<start>-0\<close>, start a string of decimal digits, gets the response of
  \<^verbatim>\<open>bytes=<start>-\<close>: the end 0 is falsy.  Where start plus 1,000,000 and the length
  of the file do not exceed \<open>2^53\<close>, that response is the default window ending at
  \<open>min (start + 1000000) (length - 1)\<close>, and whenever the second number of the header
  is 0 the end is \<^verbatim>\<open>Math.min(start + 10 ** 6, length - 1)\<close>.  For \<^verbatim>\<open>bytes=0-0\<close> the
  response is longer than the one byte asked for when the file has two bytes or more,
  and is that byte when the file has one.  In \<^verbatim>\<open>part_000\<close> a file that is not a
  video is piped whole, whatever the header.
\<close>

theorem zero_end_served_as_omitted:
  assumes "resolves torrents magnet filename f" and "allDigits ds"
  shows
    "(getFileType (name f) = Video \<longrightarrow>
        stream torrents magnet filename (Some (''bytes='' @ ds @ ''-0'')) =
          stream torrents magnet filename (Some (''bytes='' @ ds @ ''-''))) \<and>
     (getFileType (name f) \<noteq> Video \<longrightarrow>
        stream torrents magnet filename (Some (''bytes='' @ ds @ ''-0'')) =
          Whole (''image/'' @ drop 1 (extname (name f)))) \<and>
     stream_api torrents magnet filename (Some (''bytes='' @ ds @ ''-0'')) =
       stream_api torrents magnet filename (Some (''bytes='' @ ds @ ''-'')) \<and>
     (digits_value 10 ds + 1000000 \<le> 2 ^ 53 \<and> int (len f) \<le> 2 ^ 53 \<longrightarrow>
        (let n = of_int (digits_value 10 ds);
             e = min (n + 1000000) (of_nat (len f) - 1);
             window = \<lparr>range_start = Num n, range_end = Num e,
                       range_size = Num (of_nat (len f)),
                       content_length = Num (e - n + 1), content_type = ''video/mp4'',
                       read_start = Num n, read_end = Num e\<rparr>
         in (getFileType (name f) = Video \<longrightarrow>
               stream torrents magnet filename (Some (''bytes='' @ ds @ ''-0'')) =
                 Partial window) \<and>
            stream_api torrents magnet filename (Some (''bytes='' @ ds @ ''-0'')) =
              Partial window \<and>
            (\<forall>r. element (range_numbers r) 1 = Num 0 \<longrightarrow>
               range_end (serve_range (len f) r) =
                 Math_min (js_plus (element (range_numbers r) 0) (Num 1000000))
                   (Num (of_nat (len f) - 1))) \<and>
            (digits_value 10 ds = 0 \<and> 2 \<le> len f \<longrightarrow>
               range_end window \<noteq> Num 0 \<and> content_length window \<noteq> Num 1) \<and>
            (digits_value 10 ds = 0 \<and> len f = 1 \<longrightarrow>
               range_end window = Num 0 \<and> content_length window = Num 1)))"
proof -
  define h0 where "h0 = ''bytes='' @ ds @ ''-0''"
  define h1 where "h1 = ''bytes='' @ ds @ ''-''"
  have same: "range_numbers h0 = range_numbers h1"
    unfolding h0_def h1_def
    by (simp only: range_numbers_zero [OF assms(2)] range_numbers_open [OF assms(2)])
  then have eq: "serve_range (len f) h0 = serve_range (len f) h1"
    by (simp add: serve_range_def)
  have m: "\<not> missing (Some h0)" "\<not> missing (Some h1)"
    by (simp_all add: missing_def h0_def h1_def)
  have part1: "(getFileType (name f) = Video \<longrightarrow>
        stream torrents magnet filename (Some h0) = stream torrents magnet filename (Some h1)) \<and>
     (getFileType (name f) \<noteq> Video \<longrightarrow>
        stream torrents magnet filename (Some h0) =
          Whole (''image/'' @ drop 1 (extname (name f)))) \<and>
     stream_api torrents magnet filename (Some h0) =
       stream_api torrents magnet filename (Some h1)"
    by (simp add: stream_resolved [OF assms(1)] stream_api_resolved [OF assms(1)] m eq)
  have part2: "let n = of_int (digits_value 10 ds);
             e = min (n + 1000000) (of_nat (len f) - 1);
             window = \<lparr>range_start = Num n, range_end = Num e,
                       range_size = Num (of_nat (len f)),
                       content_length = Num (e - n + 1), content_type = ''video/mp4'',
                       read_start = Num n, read_end = Num e\<rparr>
         in (getFileType (name f) = Video \<longrightarrow>
               stream torrents magnet filename (Some h0) = Partial window) \<and>
            stream_api torrents magnet filename (Some h0) = Partial window \<and>
            (\<forall>r. element (range_numbers r) 1 = Num 0 \<longrightarrow>
               range_end (serve_range (len f) r) =
                 Math_min (js_plus (element (range_numbers r) 0) (Num 1000000))
                   (Num (of_nat (len f) - 1))) \<and>
            (digits_value 10 ds = 0 \<and> 2 \<le> len f \<longrightarrow>
               range_end window \<noteq> Num 0 \<and> content_length window \<noteq> Num 1) \<and>
            (digits_value 10 ds = 0 \<and> len f = 1 \<longrightarrow>
               range_end window = Num 0 \<and> content_length window = Num 1)"
    if nb: "digits_value 10 ds + 1000000 \<le> 2 ^ 53" and lb: "int (len f) \<le> 2 ^ 53"
  proof -
    define n :: rat where "n = of_int (digits_value 10 ds)"
    define e where "e = min (n + 1000000) (of_nat (len f) - 1)"
    define window where
      "window = \<lparr>range_start = Num n, range_end = Num e, range_size = Num (of_nat (len f)),
                  content_length = Num (e - n + 1), content_type = ''video/mp4'',
                  read_start = Num n, read_end = Num e\<rparr>"
    have a: "serve_range (len f) h0 = window"
      unfolding h0_def window_def e_def n_def
      by (rule serve_range_falsy_end [OF _ digits_value_nonneg nb lb])
        (simp_all only: range_numbers_zero [OF assms(2)] element_def, simp_all)
    have size: "toDouble (of_nat (len f)) = Num (of_nat (len f))"
      using lb toDouble_of_int [of "int (len f)"] by simp
    have "toDouble (of_nat (len f) - 1) = toDouble (of_int (int (len f) - 1))" by simp
    also have "\<dots> = Num (of_int (int (len f) - 1))"
      using lb by (intro toDouble_of_int) simp
    finally have last: "toDouble (of_nat (len f) - 1) = Num (of_nat (len f) - 1)" by simp
    have c: "range_end (serve_range (len f) r) =
        Math_min (js_plus (element (range_numbers r) 0) (Num 1000000))
          (Num (of_nat (len f) - 1))"
      if "element (range_numbers r) 1 = Num 0" for r
      using that by (simp add: serve_range_def Let_def chunkEnd_def js_minus_def size last)
    have d: "range_end window \<noteq> Num 0 \<and> content_length window \<noteq> Num 1"
      if "digits_value 10 ds = 0 \<and> 2 \<le> len f"
    proof -
      from that have "n = 0" and "(1::rat) \<le> of_nat (len f) - 1"
        by (simp_all add: n_def)
      then have "1 \<le> e" by (simp add: e_def)
      with \<open>n = 0\<close> show ?thesis by (simp add: window_def)
    qed
    have d1: "range_end window = Num 0 \<and> content_length window = Num 1"
      if "digits_value 10 ds = 0 \<and> len f = 1"
      using that by (simp add: window_def e_def n_def)
    show ?thesis
      unfolding Let_def stream_resolved [OF assms(1)] stream_api_resolved [OF assms(1)]
      unfolding n_def [symmetric]
      unfolding e_def [symmetric]
      unfolding window_def [symmetric]
      using c d d1 by (simp add: a m)
  qed
  from part1 part2 show ?thesis
    unfolding h0_def h1_def by blast
qed

theorem zero_end_served_as_omitted_witness:
  "resolves [demo_torrent] demo_magnet ''movie.mp4'' movie \<and> allDigits ''0'' \<and>
   digits_value 10 ''0'' + 1000000 \<le> 2 ^ 53 \<and> int (len movie) \<le> 2 ^ 53 \<and>
   stream [demo_torrent] demo_magnet ''movie.mp4'' (Some ''bytes=0-0'') =
     Partial \<lparr>range_start = Num 0, range_end = Num 1000000, range_size = Num 5000000,
              content_length = Num 1000001, content_type = ''video/mp4'',
              read_start = Num 0, read_end = Num 1000000\<rparr> \<and>
   stream [demo_torrent] demo_magnet ''movie.mp4'' (Some ''bytes=0-0'') =
     stream [demo_torrent] demo_magnet ''movie.mp4'' (Some ''bytes=0-'')"
proof -
  have v: "getFileType (name movie) = Video" and l: "len movie = 5000000"
    by (simp_all add: movie_def sample_kinds)
  have b: "digits_value 10 ''0'' + 1000000 \<le> 2 ^ 53" "int (len movie) \<le> 2 ^ 53"
    by (simp_all add: sample_digits l)
  from zero_end_served_as_omitted [OF sample_resolves(1) sample_digits(1)] v l b
  have "stream [demo_torrent] demo_magnet ''movie.mp4'' (Some ''bytes=0-0'') =
     Partial \<lparr>range_start = Num 0, range_end = Num 1000000, range_size = Num 5000000,
              content_length = Num 1000001, content_type = ''video/mp4'',
              read_start = Num 0, read_end = Num 1000000\<rparr> \<and>
     stream [demo_torrent] demo_magnet ''movie.mp4'' (Some ''bytes=0-0'') =
       stream [demo_torrent] demo_magnet ''movie.mp4'' (Some ''bytes=0-'')"
    by (auto simp: Let_def sample_digits)
  then show ?thesis
    using sample_resolves(1) sample_digits(1) b by blast
qed

subsection \<open>No validation of the range\<close>




subsection \<open>Requests without a Range header\<close>

text \<open>
  Claim C7 fails on the code: \<^verbatim>\<open>part_000\<close> answers a request for an image that has
  no Range header by piping the whole file, with status 200.
\<close>

theorem image_served_whole_without_range:
  "stream [demo_torrent] demo_magnet ''poster.jpg'' None = Whole ''image/jpg'' \<and>
   status (stream [demo_torrent] demo_magnet ''poster.jpg'' None) = Some 200 \<and>
   streams_file (stream [demo_torrent] demo_magnet ''poster.jpg'' None)"
  by (simp add: stream_resolved [OF sample_resolves(2)] poster_def sample_kinds
      sample_extname)

text \<open>
  Claim C7 as amended.  For a request that resolves to a file: the handler of
  \<^verbatim>\<open>part_000\<close> answers 400 \<^verbatim>\<open>Requires Range header\<close> and pipes nothing when the file
  is a video and the header is absent or empty, and pipes the whole file with content
  type \<^verbatim>\<open>image/<extension>\<close> when the file is not a video, whatever the header; the
  handler of \<^verbatim>\<open>src/api/index.js\<close> answers 400 for every file when the header is
  absent or empty.
\<close>

theorem range_header_required_for_video:
  assumes "resolves torrents magnet filename f"
  shows
    "(getFileType (name f) = Video \<longrightarrow> missing rangeHeader \<longrightarrow>
        stream torrents magnet filename rangeHeader = Send 400 ''Requires Range header'' \<and>
        \<not> streams_file (stream torrents magnet filename rangeHeader)) \<and>
     (getFileType (name f) \<noteq> Video \<longrightarrow>
        stream torrents magnet filename rangeHeader =
          Whole (''image/'' @ drop 1 (extname (name f)))) \<and>
     (missing rangeHeader \<longrightarrow>
        stream_api torrents magnet filename rangeHeader = Send 400 ''Requires Range header'' \<and>
        \<not> streams_file (stream_api torrents magnet filename rangeHeader))"
  by (simp add: stream_resolved [OF assms] stream_api_resolved [OF assms])

theorem range_header_required_for_video_witness:
  "resolves [demo_torrent] demo_magnet ''movie.mp4'' movie \<and>
   resolves [demo_torrent] demo_magnet ''poster.jpg'' poster \<and>
   missing None \<and>
   stream [demo_torrent] demo_magnet ''movie.mp4'' None = Send 400 ''Requires Range header'' \<and>
   stream [demo_torrent] demo_magnet ''poster.jpg'' None = Whole ''image/jpg'' \<and>
   stream_api [demo_torrent] demo_magnet ''poster.jpg'' None = Send 400 ''Requires Range header''"
proof -
  have v: "getFileType (name movie) = Video" and i: "getFileType (name poster) \<noteq> Video"
    and x: "extname (name poster) = ''.jpg''"
    by (simp_all add: movie_def poster_def sample_kinds sample_extname)
  have m: "missing None" by (simp add: missing_def)
  from range_header_required_for_video [OF sample_resolves(1), of None] v m
  have "stream [demo_torrent] demo_magnet ''movie.mp4'' None = Send 400 ''Requires Range header''"
    by simp
  moreover
  from range_header_required_for_video [OF sample_resolves(2), of None] i m x
  have "stream [demo_torrent] demo_magnet ''poster.jpg'' None = Whole ''image/jpg'' \<and>
    stream_api [demo_torrent] demo_magnet ''poster.jpg'' None = Send 400 ''Requires Range header''"
    by simp
  ultimately show ?thesis
    using sample_resolves m by simp
qed

end
